theory Spec2Isabelle
  imports Main "HOL-Library.Word" "HOL-Library.DAList"
begin

section \<open>The counter of go-metrics: data model\<close>

text \<open>
  The Go file declares the interface \<open>Counter\<close> (composed with \<open>Taggable\<close>) and three
  implementations: the value type \<open>NilCounter\<close> and the pointer types
  \<open>*CounterSnapshot\<close> and \<open>*StandardCounter\<close>. Both structs hold an \<open>int64\<close> and a
  \<open>map[string]string\<close>. A Go map is a reference: assigning it or passing it to a function
  shares the one map object, and \<open>nil\<close> is a map value of its own, different from an empty
  map. The claims about snapshots and about \<open>AddTags\<close> depend on that sharing, so the model
  keeps an explicit store: map objects and struct objects live in lists, an address is an
  index, and an allocation appends (the new address is the old length, hence always fresh).
\<close>

type_synonym int64 = "64 word"
type_synonym addr = nat

text \<open>
  The contents of one map object: key/value entries with distinct keys. The order of the
  entries stands for the order in which \<open>range\<close> visits them, which Go leaves unspecified.
\<close>

type_synonym tagmap = "(string, string) alist"

text \<open>A value of type \<open>map[string]string\<close>: \<open>None\<close> is \<open>nil\<close>.\<close>

type_synonym mapref = "addr option"

record StandardCounter =
  count :: int64
  tags :: mapref

record CounterSnapshot =
  count :: int64
  tags :: mapref

text \<open>
  A value of the interface type \<open>Counter\<close>. The two pointer variants carry the address of
  an object. A nil pointer is not a counter (Go faults when a method reads a field through
  it) and is not a value of this type.
\<close>

datatype Counter =
  NilCounter
  | StandardCounterPtr addr
  | CounterSnapshotPtr addr

record heap =
  map_objs :: "tagmap list"
  std_objs :: "StandardCounter list"
  snap_objs :: "CounterSnapshot list"

definition empty_heap :: heap where
  "empty_heap = \<lparr>map_objs = [], std_objs = [], snap_objs = []\<rparr>"

text \<open>
  \<open>Panic\<close> carries the message of a \<open>panic(...)\<close> call. Go's pointers never dangle; an
  address outside the store has no counterpart in a running program, and the model
  answers \<open>InvalidAddress\<close> there instead of reading an unspecified list element.
\<close>

datatype error = Panic string | InvalidAddress

section \<open>Go's built-in map operations\<close>

text \<open>The literal \<open>map[string]string{}\<close>: a new, empty map object.\<close>

definition make_map :: "heap \<Rightarrow> addr \<times> heap" where
  "make_map h = (length (map_objs h), h\<lparr>map_objs := map_objs h @ [DAList.empty]\<rparr>)"

text \<open>\<open>len(m)\<close>; the length of a nil map is 0.\<close>

definition map_len :: "mapref \<Rightarrow> heap \<Rightarrow> error + nat" where
  "map_len m h =
     (case m of
        None \<Rightarrow> Inr 0
      | Some a \<Rightarrow>
          if a < length (map_objs h) then Inr (size (map_objs h ! a)) else Inl InvalidAddress)"

text \<open>The entries a \<open>range\<close> over \<open>m\<close> visits; none for a nil map.\<close>

definition map_entries :: "mapref \<Rightarrow> heap \<Rightarrow> error + (string \<times> string) list" where
  "map_entries m h =
     (case m of
        None \<Rightarrow> Inr []
      | Some a \<Rightarrow>
          if a < length (map_objs h) then Inr (DAList.impl_of (map_objs h ! a))
          else Inl InvalidAddress)"

text \<open>The assignment \<open>m[k] = v\<close>; Go panics when \<open>m\<close> is nil.\<close>

definition map_assign :: "mapref \<Rightarrow> string \<Rightarrow> string \<Rightarrow> heap \<Rightarrow> error + heap" where
  "map_assign m k v h =
     (case m of
        None \<Rightarrow> Inl (Panic ''assignment to entry in nil map'')
      | Some a \<Rightarrow>
          if a < length (map_objs h)
          then Inr (h\<lparr>map_objs := (map_objs h)[a := DAList.update k v (map_objs h ! a)]\<rparr>)
          else Inl InvalidAddress)"

text \<open>
  The loop \<open>for k, v := range src { dst[k] = v }\<close>, which both \<open>Snapshot\<close> and
  \<open>AddTags\<close> contain; \<open>es\<close> are the entries of \<open>src\<close>. Neither loop assigns its target
  variable, so the target is read once.
\<close>

fun range_assign :: "(string \<times> string) list \<Rightarrow> mapref \<Rightarrow> heap \<Rightarrow> error + heap" where
  "range_assign [] dst h = Inr h"
| "range_assign ((k, v) # es) dst h =
     (case map_assign dst k v h of
        Inl e \<Rightarrow> Inl e
      | Inr h' \<Rightarrow> range_assign es dst h')"

section \<open>Struct objects and the atomic operations on the count field\<close>

definition std_load :: "addr \<Rightarrow> heap \<Rightarrow> error + StandardCounter" where
  "std_load c h = (if c < length (std_objs h) then Inr (std_objs h ! c) else Inl InvalidAddress)"

definition std_store :: "addr \<Rightarrow> StandardCounter \<Rightarrow> heap \<Rightarrow> heap" where
  "std_store c sc h = h\<lparr>std_objs := (std_objs h)[c := sc]\<rparr>"

definition snap_load :: "addr \<Rightarrow> heap \<Rightarrow> error + CounterSnapshot" where
  "snap_load s h =
     (if s < length (snap_objs h) then Inr (snap_objs h ! s) else Inl InvalidAddress)"

text \<open>\<open>&StandardCounter{...}\<close> and \<open>&CounterSnapshot{...}\<close>: a new struct object.\<close>

definition new_StandardCounter :: "StandardCounter \<Rightarrow> heap \<Rightarrow> addr \<times> heap" where
  "new_StandardCounter sc h = (length (std_objs h), h\<lparr>std_objs := std_objs h @ [sc]\<rparr>)"

definition new_CounterSnapshot :: "CounterSnapshot \<Rightarrow> heap \<Rightarrow> addr \<times> heap" where
  "new_CounterSnapshot cs h = (length (snap_objs h), h\<lparr>snap_objs := snap_objs h @ [cs]\<rparr>)"

text \<open>
  The functions of \<open>sync/atomic\<close> that the counter calls, each applied to \<open>&c.count\<close>
  (the first argument is the address of the counter \<open>c\<close>), with their sequential
  meaning: store, load, and add with wrap-around, returning the new value.
\<close>

definition atomic_StoreInt64 :: "addr \<Rightarrow> int64 \<Rightarrow> heap \<Rightarrow> error + heap" where
  "atomic_StoreInt64 c v h =
     (case std_load c h of
        Inl e \<Rightarrow> Inl e
      | Inr sc \<Rightarrow> Inr (std_store c (sc\<lparr>StandardCounter.count := v\<rparr>) h))"

definition atomic_LoadInt64 :: "addr \<Rightarrow> heap \<Rightarrow> error + int64" where
  "atomic_LoadInt64 c h =
     (case std_load c h of
        Inl e \<Rightarrow> Inl e
      | Inr sc \<Rightarrow> Inr (StandardCounter.count sc))"

definition atomic_AddInt64 :: "addr \<Rightarrow> int64 \<Rightarrow> heap \<Rightarrow> error + (int64 \<times> heap)" where
  "atomic_AddInt64 c delta h =
     (case std_load c h of
        Inl e \<Rightarrow> Inl e
      | Inr sc \<Rightarrow>
          Inr (StandardCounter.count sc + delta,
               std_store c (sc\<lparr>StandardCounter.count := StandardCounter.count sc + delta\<rparr>) h))"

section \<open>NewCounter\<close>

text \<open>
  \<open>UseNilMetrics\<close> is a package variable declared outside the two files; the model takes
  it as an argument. \<open>GetOrRegisterCounter\<close> and \<open>NewRegisteredCounter\<close> hand the counter to
  a \<open>Registry\<close>, which is declared outside the two files as well, and are left out.
\<close>

definition NewCounter :: "bool \<Rightarrow> heap \<Rightarrow> Counter \<times> heap" where
  "NewCounter UseNilMetrics h =
     (if UseNilMetrics then (NilCounter, h)
      else (case new_StandardCounter \<lparr>StandardCounter.count = 0, tags = None\<rparr> h of
              (c, h') \<Rightarrow> (StandardCounterPtr c, h')))"

section \<open>CounterSnapshot\<close>

definition CounterSnapshot_Clear :: "addr \<Rightarrow> heap \<Rightarrow> error + (unit \<times> heap)" where
  "CounterSnapshot_Clear c h = Inl (Panic ''Clear called on a CounterSnapshot'')"

definition CounterSnapshot_Count :: "addr \<Rightarrow> heap \<Rightarrow> error + (int64 \<times> heap)" where
  "CounterSnapshot_Count c h =
     (case snap_load c h of
        Inl e \<Rightarrow> Inl e
      | Inr cs \<Rightarrow> Inr (CounterSnapshot.count cs, h))"

definition CounterSnapshot_Dec :: "addr \<Rightarrow> int64 \<Rightarrow> heap \<Rightarrow> error + (unit \<times> heap)" where
  "CounterSnapshot_Dec c i h = Inl (Panic ''Dec called on a CounterSnapshot'')"

definition CounterSnapshot_Inc :: "addr \<Rightarrow> int64 \<Rightarrow> heap \<Rightarrow> error + (unit \<times> heap)" where
  "CounterSnapshot_Inc c i h = Inl (Panic ''Inc called on a CounterSnapshot'')"

definition CounterSnapshot_Snapshot :: "addr \<Rightarrow> heap \<Rightarrow> error + (Counter \<times> heap)" where
  "CounterSnapshot_Snapshot c h = Inr (CounterSnapshotPtr c, h)"

definition CounterSnapshot_AddTags :: "addr \<Rightarrow> mapref \<Rightarrow> heap \<Rightarrow> error + (unit \<times> heap)" where
  "CounterSnapshot_AddTags c t h = Inl (Panic ''AddTags called on a CounterSnapshot'')"

definition CounterSnapshot_GetTags :: "addr \<Rightarrow> heap \<Rightarrow> error + (mapref \<times> heap)" where
  "CounterSnapshot_GetTags c h =
     (case snap_load c h of
        Inl e \<Rightarrow> Inl e
      | Inr cs \<Rightarrow> Inr (CounterSnapshot.tags cs, h))"

section \<open>NilCounter\<close>

definition NilCounter_Clear :: "heap \<Rightarrow> error + (unit \<times> heap)" where
  "NilCounter_Clear h = Inr ((), h)"

definition NilCounter_Count :: "heap \<Rightarrow> error + (int64 \<times> heap)" where
  "NilCounter_Count h = Inr (0, h)"

definition NilCounter_Dec :: "int64 \<Rightarrow> heap \<Rightarrow> error + (unit \<times> heap)" where
  "NilCounter_Dec i h = Inr ((), h)"

definition NilCounter_Inc :: "int64 \<Rightarrow> heap \<Rightarrow> error + (unit \<times> heap)" where
  "NilCounter_Inc i h = Inr ((), h)"

definition NilCounter_Snapshot :: "heap \<Rightarrow> error + (Counter \<times> heap)" where
  "NilCounter_Snapshot h = Inr (NilCounter, h)"

definition NilCounter_AddTags :: "mapref \<Rightarrow> heap \<Rightarrow> error + (unit \<times> heap)" where
  "NilCounter_AddTags t h = Inr ((), h)"

definition NilCounter_GetTags :: "heap \<Rightarrow> error + (mapref \<times> heap)" where
  "NilCounter_GetTags h = Inr (None, h)"

section \<open>StandardCounter\<close>

definition StandardCounter_Clear :: "addr \<Rightarrow> heap \<Rightarrow> error + (unit \<times> heap)" where
  "StandardCounter_Clear c h =
     (case atomic_StoreInt64 c 0 h of
        Inl e \<Rightarrow> Inl e
      | Inr h' \<Rightarrow> Inr ((), h'))"

definition StandardCounter_Count :: "addr \<Rightarrow> heap \<Rightarrow> error + (int64 \<times> heap)" where
  "StandardCounter_Count c h =
     (case atomic_LoadInt64 c h of
        Inl e \<Rightarrow> Inl e
      | Inr v \<Rightarrow> Inr (v, h))"

definition StandardCounter_Dec :: "addr \<Rightarrow> int64 \<Rightarrow> heap \<Rightarrow> error + (unit \<times> heap)" where
  "StandardCounter_Dec c i h =
     (case atomic_AddInt64 c (- i) h of
        Inl e \<Rightarrow> Inl e
      | Inr (v, h') \<Rightarrow> Inr ((), h'))"

definition StandardCounter_Inc :: "addr \<Rightarrow> int64 \<Rightarrow> heap \<Rightarrow> error + (unit \<times> heap)" where
  "StandardCounter_Inc c i h =
     (case atomic_AddInt64 c i h of
        Inl e \<Rightarrow> Inl e
      | Inr (v, h') \<Rightarrow> Inr ((), h'))"

definition StandardCounter_Snapshot :: "addr \<Rightarrow> heap \<Rightarrow> error + (Counter \<times> heap)" where
  "StandardCounter_Snapshot c h =
     (case std_load c h of
        Inl e \<Rightarrow> Inl e
      | Inr sc \<Rightarrow>
     (case map_len (StandardCounter.tags sc) h of
        Inl e \<Rightarrow> Inl e
      | Inr n \<Rightarrow>
          if n = 0 then
            (case StandardCounter_Count c h of
               Inl e \<Rightarrow> Inl e
             | Inr (v, h1) \<Rightarrow>
                 (case new_CounterSnapshot \<lparr>CounterSnapshot.count = v, tags = None\<rparr> h1 of
                    (s, h2) \<Rightarrow> Inr (CounterSnapshotPtr s, h2)))
          else
            (case make_map h of
               (tagsCopy, h1) \<Rightarrow>
            (case map_entries (StandardCounter.tags sc) h1 of
               Inl e \<Rightarrow> Inl e
             | Inr es \<Rightarrow>
            (case range_assign es (Some tagsCopy) h1 of
               Inl e \<Rightarrow> Inl e
             | Inr h2 \<Rightarrow>
            (case StandardCounter_Count c h2 of
               Inl e \<Rightarrow> Inl e
             | Inr (v, h3) \<Rightarrow>
                 (case new_CounterSnapshot
                         \<lparr>CounterSnapshot.count = v, tags = Some tagsCopy\<rparr> h3 of
                    (s, h4) \<Rightarrow> Inr (CounterSnapshotPtr s, h4))))))))"

definition StandardCounter_AddTags :: "addr \<Rightarrow> mapref \<Rightarrow> heap \<Rightarrow> error + (unit \<times> heap)" where
  "StandardCounter_AddTags c t h =
     (case std_load c h of
        Inl e \<Rightarrow> Inl e
      | Inr sc \<Rightarrow>
          if StandardCounter.tags sc = None
          then Inr ((), std_store c (sc\<lparr>StandardCounter.tags := t\<rparr>) h)
          else
            (case map_entries t h of
               Inl e \<Rightarrow> Inl e
             | Inr es \<Rightarrow>
            (case range_assign es (StandardCounter.tags sc) h of
               Inl e \<Rightarrow> Inl e
             | Inr h' \<Rightarrow> Inr ((), h'))))"

definition StandardCounter_GetTags :: "addr \<Rightarrow> heap \<Rightarrow> error + (mapref \<times> heap)" where
  "StandardCounter_GetTags c h =
     (case std_load c h of
        Inl e \<Rightarrow> Inl e
      | Inr sc \<Rightarrow> Inr (StandardCounter.tags sc, h))"

section \<open>Calls through the interface\<close>

text \<open>
  A method call on an interface value goes to the method of the dynamic type. \<open>call\<close>
  names a method of \<open>Counter\<close> with its arguments, \<open>retval\<close> what it returns.
\<close>

datatype call = Clear | Count | Dec int64 | Inc int64 | Snapshot | AddTags mapref | GetTags

datatype retval = RetUnit | RetInt64 int64 | RetCounter Counter | RetTags mapref

definition ret :: "('a \<Rightarrow> retval) \<Rightarrow> error + ('a \<times> heap) \<Rightarrow> error + (retval \<times> heap)" where
  "ret f r = (case r of Inl e \<Rightarrow> Inl e | Inr (x, h) \<Rightarrow> Inr (f x, h))"

fun invoke :: "Counter \<Rightarrow> call \<Rightarrow> heap \<Rightarrow> error + (retval \<times> heap)" where
  "invoke NilCounter Clear h = ret (\<lambda>_. RetUnit) (NilCounter_Clear h)"
| "invoke NilCounter Count h = ret RetInt64 (NilCounter_Count h)"
| "invoke NilCounter (Dec i) h = ret (\<lambda>_. RetUnit) (NilCounter_Dec i h)"
| "invoke NilCounter (Inc i) h = ret (\<lambda>_. RetUnit) (NilCounter_Inc i h)"
| "invoke NilCounter Snapshot h = ret RetCounter (NilCounter_Snapshot h)"
| "invoke NilCounter (AddTags t) h = ret (\<lambda>_. RetUnit) (NilCounter_AddTags t h)"
| "invoke NilCounter GetTags h = ret RetTags (NilCounter_GetTags h)"
| "invoke (StandardCounterPtr c) Clear h = ret (\<lambda>_. RetUnit) (StandardCounter_Clear c h)"
| "invoke (StandardCounterPtr c) Count h = ret RetInt64 (StandardCounter_Count c h)"
| "invoke (StandardCounterPtr c) (Dec i) h = ret (\<lambda>_. RetUnit) (StandardCounter_Dec c i h)"
| "invoke (StandardCounterPtr c) (Inc i) h = ret (\<lambda>_. RetUnit) (StandardCounter_Inc c i h)"
| "invoke (StandardCounterPtr c) Snapshot h = ret RetCounter (StandardCounter_Snapshot c h)"
| "invoke (StandardCounterPtr c) (AddTags t) h =
     ret (\<lambda>_. RetUnit) (StandardCounter_AddTags c t h)"
| "invoke (StandardCounterPtr c) GetTags h = ret RetTags (StandardCounter_GetTags c h)"
| "invoke (CounterSnapshotPtr c) Clear h = ret (\<lambda>_. RetUnit) (CounterSnapshot_Clear c h)"
| "invoke (CounterSnapshotPtr c) Count h = ret RetInt64 (CounterSnapshot_Count c h)"
| "invoke (CounterSnapshotPtr c) (Dec i) h = ret (\<lambda>_. RetUnit) (CounterSnapshot_Dec c i h)"
| "invoke (CounterSnapshotPtr c) (Inc i) h = ret (\<lambda>_. RetUnit) (CounterSnapshot_Inc c i h)"
| "invoke (CounterSnapshotPtr c) Snapshot h = ret RetCounter (CounterSnapshot_Snapshot c h)"
| "invoke (CounterSnapshotPtr c) (AddTags t) h =
     ret (\<lambda>_. RetUnit) (CounterSnapshot_AddTags c t h)"
| "invoke (CounterSnapshotPtr c) GetTags h = ret RetTags (CounterSnapshot_GetTags c h)"

text \<open>A sequence of calls on one counter, stopping at the first panic.\<close>

fun invoke_all :: "Counter \<Rightarrow> call list \<Rightarrow> heap \<Rightarrow> error + (retval list \<times> heap)" where
  "invoke_all k [] h = Inr ([], h)"
| "invoke_all k (x # xs) h =
     (case invoke k x h of
        Inl e \<Rightarrow> Inl e
      | Inr (r, h') \<Rightarrow>
          (case invoke_all k xs h' of
             Inl e \<Rightarrow> Inl e
           | Inr (rs, h'') \<Rightarrow> Inr (r # rs, h'')))"

section \<open>Well-formed stores and observations\<close>

text \<open>
  In a running Go program every non-nil map value refers to a map object. \<open>heap_ok\<close> says
  so for the \<open>tags\<close> fields of all struct objects.
\<close>

fun ref_ok :: "heap \<Rightarrow> mapref \<Rightarrow> bool" where
  "ref_ok h None = True"
| "ref_ok h (Some a) = (a < length (map_objs h))"

definition heap_ok :: "heap \<Rightarrow> bool" where
  "heap_ok h =
     (list_all (\<lambda>sc. ref_ok h (StandardCounter.tags sc)) (std_objs h) \<and>
      list_all (\<lambda>cs. ref_ok h (CounterSnapshot.tags cs)) (snap_objs h))"

text \<open>The tag set a map value stands for: the empty one for nil.\<close>

definition tag_set :: "heap \<Rightarrow> mapref \<Rightarrow> string \<rightharpoonup> string" where
  "tag_set h m = (case m of None \<Rightarrow> Map.empty | Some a \<Rightarrow> DAList.lookup (map_objs h ! a))"

text \<open>The store after writing \<open>v\<close> into the count field of the counter at \<open>c\<close>.\<close>

definition set_count :: "addr \<Rightarrow> int64 \<Rightarrow> heap \<Rightarrow> heap" where
  "set_count c v h =
     h\<lparr>std_objs := (std_objs h)[c := (std_objs h ! c)\<lparr>StandardCounter.count := v\<rparr>]\<rparr>"

text \<open>Sequences of \<open>Inc\<close> and \<open>Dec\<close> calls, their increments and their decrements.\<close>

fun inc_dec_only :: "call \<Rightarrow> bool" where
  "inc_dec_only (Inc a) = True"
| "inc_dec_only (Dec b) = True"
| "inc_dec_only _ = False"

fun increments :: "call list \<Rightarrow> int64 list" where
  "increments [] = []"
| "increments (Inc a # xs) = a # increments xs"
| "increments (_ # xs) = increments xs"

fun decrements :: "call list \<Rightarrow> int64 list" where
  "decrements [] = []"
| "decrements (Dec b # xs) = b # decrements xs"
| "decrements (_ # xs) = decrements xs"

text \<open>
  What the specification says a call on a NilCounter returns: nothing for the mutating
  methods, 0 for \<open>Count\<close>, a NilCounter for \<open>Snapshot\<close>, no tags for \<open>GetTags\<close>.
\<close>

fun NilCounter_expected :: "call \<Rightarrow> retval" where
  "NilCounter_expected Clear = RetUnit"
| "NilCounter_expected Count = RetInt64 0"
| "NilCounter_expected (Dec i) = RetUnit"
| "NilCounter_expected (Inc i) = RetUnit"
| "NilCounter_expected Snapshot = RetCounter NilCounter"
| "NilCounter_expected (AddTags t) = RetUnit"
| "NilCounter_expected GetTags = RetTags None"

text \<open>A store with one counter that holds 41 and has no tag map.\<close>

definition heap_one :: heap where
  "heap_one =
     \<lparr>map_objs = [], std_objs = [\<lparr>StandardCounter.count = 41, tags = None\<rparr>], snap_objs = []\<rparr>"

section \<open>Notions used in the statements and proofs\<close>

text \<open>
  What the loop \<open>for k, v := range src { dst[k] = v }\<close> leaves in the target map
  object: the entries assigned one after the other.
\<close>

fun merge_entries :: "(string \<times> string) list \<Rightarrow> tagmap \<Rightarrow> tagmap" where
  "merge_entries [] m = m"
| "merge_entries ((k, v) # es) m = merge_entries es (DAList.update k v m)"

text \<open>The store after replacing the contents of the map object at \<open>a\<close>.\<close>

definition put_map :: "addr \<Rightarrow> tagmap \<Rightarrow> heap \<Rightarrow> heap" where
  "put_map a m h = h\<lparr>map_objs := (map_objs h)[a := m]\<rparr>"

text \<open>
  A call whose arguments are values a Go program can pass: the map given to \<open>AddTags\<close>
  is nil or refers to a map object of the store.
\<close>

fun call_ok :: "heap \<Rightarrow> call \<Rightarrow> bool" where
  "call_ok h (AddTags t) = ref_ok h t"
| "call_ok h _ = True"

text \<open>The store after assigning \<open>t\<close> to the tags field of the counter at \<open>c\<close>.\<close>

definition set_tags :: "addr \<Rightarrow> mapref \<Rightarrow> heap \<Rightarrow> heap" where
  "set_tags c t h =
     h\<lparr>std_objs := (std_objs h)[c := (std_objs h ! c)\<lparr>StandardCounter.tags := t\<rparr>]\<rparr>"

text \<open>The store with one more CounterSnapshot object, and with one more map object.\<close>

definition add_snapshot :: "int64 \<Rightarrow> mapref \<Rightarrow> heap \<Rightarrow> heap" where
  "add_snapshot v t h = h\<lparr>snap_objs := snap_objs h @ [\<lparr>CounterSnapshot.count = v, tags = t\<rparr>]\<rparr>"

definition add_map :: "tagmap \<Rightarrow> heap \<Rightarrow> heap" where
  "add_map m h = h\<lparr>map_objs := map_objs h @ [m]\<rparr>"

text \<open>
  What one call on the StandardCounter at \<open>c\<close> may do to the store: objects are only
  added, the existing snapshots stay as they are, a map object changes only if the counter's
  tags field refers to it, and a tags field that refers to a map keeps referring to it.
\<close>

definition step_frame :: "addr \<Rightarrow> heap \<Rightarrow> heap \<Rightarrow> bool" where
  "step_frame c h h' \<longleftrightarrow>
     heap_ok h' \<and>
     length (std_objs h') = length (std_objs h) \<and>
     length (map_objs h) \<le> length (map_objs h') \<and>
     length (snap_objs h) \<le> length (snap_objs h') \<and>
     (\<forall>s < length (snap_objs h). snap_objs h' ! s = snap_objs h ! s) \<and>
     (\<forall>a < length (map_objs h).
        Some a \<noteq> StandardCounter.tags (std_objs h ! c) \<longrightarrow> map_objs h' ! a = map_objs h ! a) \<and>
     (\<forall>b. StandardCounter.tags (std_objs h ! c) = Some b \<longrightarrow>
        StandardCounter.tags (std_objs h' ! c) = Some b)"

text \<open>
  The snapshot at \<open>s\<close>, taken of the counter at \<open>c\<close> in store \<open>h1\<close>, is intact in a
  later store \<open>h'\<close>: the snapshot object and the map it refers to are as they were in
  \<open>h1\<close>, and the counter's tags field refers to another map object.
\<close>

definition snapshot_kept :: "addr \<Rightarrow> addr \<Rightarrow> heap \<Rightarrow> heap \<Rightarrow> bool" where
  "snapshot_kept c s h1 h' \<longleftrightarrow>
     heap_ok h' \<and> c < length (std_objs h') \<and>
     s < length (snap_objs h') \<and> snap_objs h' ! s = snap_objs h1 ! s \<and>
     length (map_objs h1) \<le> length (map_objs h') \<and>
     (\<forall>a. CounterSnapshot.tags (snap_objs h1 ! s) = Some a \<longrightarrow>
        a < length (map_objs h1) \<and> map_objs h' ! a = map_objs h1 ! a \<and>
        (\<exists>b. StandardCounter.tags (std_objs h' ! c) = Some b \<and> b \<noteq> a))"

text \<open>
  A store with the maps \<open>{"a": "1"}\<close> and \<open>{"b": "2"}\<close> and one counter that holds 7
  and is tagged with the first map.
\<close>

definition heap_two :: heap where
  "heap_two =
     \<lparr>map_objs = [DAList.update ''a'' ''1'' DAList.empty, DAList.update ''b'' ''2'' DAList.empty],
      std_objs = [\<lparr>StandardCounter.count = 7, tags = Some 0\<rparr>],
      snap_objs = []\<rparr>"

text \<open>The methods that change a counter.\<close>

fun is_mutation :: "call \<Rightarrow> bool" where
  "is_mutation Clear = True"
| "is_mutation (Dec i) = True"
| "is_mutation (Inc i) = True"
| "is_mutation (AddTags t) = True"
| "is_mutation _ = False"

text \<open>The receiver is a CounterSnapshot.\<close>

fun is_snapshot :: "Counter \<Rightarrow> bool" where
  "is_snapshot (CounterSnapshotPtr s) = True"
| "is_snapshot _ = False"

text \<open>The receiver is a NilCounter or points to an object of the store.\<close>

fun counter_ok :: "heap \<Rightarrow> Counter \<Rightarrow> bool" where
  "counter_ok h NilCounter = True"
| "counter_ok h (StandardCounterPtr c) = (c < length (std_objs h))"
| "counter_ok h (CounterSnapshotPtr s) = (s < length (snap_objs h))"

text \<open>
  The composite literal \<open>map[string]string{k1: v1, ...}\<close> in a caller: a new map object
  holding the listed entries.
\<close>

definition map_literal :: "(string \<times> string) list \<Rightarrow> heap \<Rightarrow> addr \<times> heap" where
  "map_literal es h = (length (map_objs h), add_map (merge_entries es DAList.empty) h)"

text \<open>
  The two notions the sentence about \<open>AddTags\<close> uses, in the specification's words:
  the counter "has no tags" when the map that \<open>GetTags()\<close> returns has no entry, and
  the given map "becomes the tag set by reference" when \<open>GetTags()\<close> after the call
  returns the very map value that was passed.
\<close>

definition has_no_tags :: "addr \<Rightarrow> heap \<Rightarrow> bool" where
  "has_no_tags c h =
     (case StandardCounter_GetTags c h of
        Inl e \<Rightarrow> False
      | Inr (m, h') \<Rightarrow> map_len m h' = Inr 0)"

definition adopts_argument :: "addr \<Rightarrow> mapref \<Rightarrow> heap \<Rightarrow> bool" where
  "adopts_argument c t h =
     (case StandardCounter_AddTags c t h of
        Inl e \<Rightarrow> False
      | Inr (u, h') \<Rightarrow> StandardCounter_GetTags c h' = Inr (t, h'))"

text \<open>
  A fresh counter and two maps a caller made: \<open>{}\<close> at address 0 and \<open>{"a": "1"}\<close> at
  address 1.
\<close>

definition heap_fresh :: heap where
  "heap_fresh =
     snd (map_literal [(''a'', ''1'')] (snd (make_map (snd (NewCounter False empty_heap)))))"

text \<open>The same store after the counter was given the empty map by \<open>AddTags\<close>.\<close>

definition heap_empty_tags :: heap where
  "heap_empty_tags =
     \<lparr>map_objs = [DAList.empty, DAList.update ''a'' ''1'' DAList.empty],
      std_objs = [\<lparr>StandardCounter.count = 0, tags = Some 0\<rparr>],
      snap_objs = []\<rparr>"

text \<open>
  A fresh counter and the two maps of the example: \<open>{"a": "1"}\<close> at address 0 and
  \<open>{"a": "2", "b": "3"}\<close> at address 1.
\<close>

definition heap_example :: heap where
  "heap_example =
     snd (map_literal [(''a'', ''2''), (''b'', ''3'')]
       (snd (map_literal [(''a'', ''1'')] (snd (NewCounter False empty_heap)))))"

section \<open>Effects of the counter methods\<close>

lemma invoke_Inc_valid:
  "c < length (std_objs h) \<Longrightarrow>
   invoke (StandardCounterPtr c) (Inc a) h =
     Inr (RetUnit, set_count c (StandardCounter.count (std_objs h ! c) + a) h)"
  by (simp add: StandardCounter_Inc_def atomic_AddInt64_def std_load_def std_store_def ret_def
      set_count_def)

lemma invoke_Dec_valid:
  "c < length (std_objs h) \<Longrightarrow>
   invoke (StandardCounterPtr c) (Dec b) h =
     Inr (RetUnit, set_count c (StandardCounter.count (std_objs h ! c) - b) h)"
  by (simp add: StandardCounter_Dec_def atomic_AddInt64_def std_load_def std_store_def ret_def
      set_count_def)

lemma set_count_length [simp]: "length (std_objs (set_count c v h)) = length (std_objs h)"
  by (simp add: set_count_def)

lemma set_count_read [simp]:
  "c < length (std_objs h) \<Longrightarrow> StandardCounter.count (std_objs (set_count c v h) ! c) = v"
  by (simp add: set_count_def)

lemma invoke_all_inc_dec:
  "list_all inc_dec_only ops \<Longrightarrow> c < length (std_objs h) \<Longrightarrow>
   \<exists>rs h'. invoke_all (StandardCounterPtr c) ops h = Inr (rs, h') \<and>
     c < length (std_objs h') \<and>
     StandardCounter.count (std_objs h' ! c) =
       StandardCounter.count (std_objs h ! c) + sum_list (increments ops)
         - sum_list (decrements ops)"
proof (induction ops arbitrary: h)
  case Nil
  then show ?case by simp
next
  case (Cons x xs)
  show ?case
  proof (cases x)
    case (Inc a)
    let ?h1 = "set_count c (StandardCounter.count (std_objs h ! c) + a) h"
    from Cons.prems have "list_all inc_dec_only xs" and "c < length (std_objs ?h1)" by simp_all
    from Cons.IH [OF this] Cons.prems(2) Inc show ?thesis
      by (auto simp: invoke_Inc_valid simp del: invoke.simps)
  next
    case (Dec b)
    let ?h1 = "set_count c (StandardCounter.count (std_objs h ! c) - b) h"
    from Cons.prems have "list_all inc_dec_only xs" and "c < length (std_objs ?h1)" by simp_all
    from Cons.IH [OF this] Cons.prems(2) Dec show ?thesis
      by (auto simp: invoke_Dec_valid simp del: invoke.simps)
  qed (use Cons.prems in simp_all)
qed

text \<open>Sums of \<open>int64\<close> values against sums of the integers they denote.\<close>

lemma sum_list_word_of_int:
  "sum_list xs = (word_of_int (sum_list (map sint xs)) :: int64)"
  by (induction xs) simp_all

lemma sint_sum_diff:
  "sint (sum_list xs - sum_list ys :: int64) =
     signed_take_bit 63 (sum_list (map sint xs) - sum_list (map sint ys))"
proof -
  have "sum_list xs - sum_list ys =
        (word_of_int (sum_list (map sint xs) - sum_list (map sint ys)) :: int64)"
    by (simp add: sum_list_word_of_int [of xs] sum_list_word_of_int [of ys])
  then show ?thesis by (simp only: sint_sbintrunc') simp
qed

lemma uint_sum_diff:
  "uint (sum_list xs - sum_list ys :: int64) =
     (sum_list (map sint xs) - sum_list (map sint ys)) mod 2 ^ 64"
proof -
  have "sum_list xs - sum_list ys =
        (word_of_int (sum_list (map sint xs) - sum_list (map sint ys)) :: int64)"
    by (simp add: sum_list_word_of_int [of xs] sum_list_word_of_int [of ys])
  then show ?thesis by (simp only: uint_word_of_int) simp
qed

lemma invoke_NilCounter: "invoke NilCounter x h = Inr (NilCounter_expected x, h)"
  by (cases x)
    (simp_all add: ret_def NilCounter_Clear_def NilCounter_Count_def NilCounter_Dec_def
      NilCounter_Inc_def NilCounter_Snapshot_def NilCounter_AddTags_def NilCounter_GetTags_def)

subsection \<open>Map objects and the range loop\<close>

lemma put_map_same [simp]: "put_map a (map_objs h ! a) h = h"
  by (simp add: put_map_def)

lemma put_map_twice [simp]: "put_map a m (put_map a m' h) = put_map a m h"
  by (simp add: put_map_def)

lemma map_assign_valid:
  "a < length (map_objs h) \<Longrightarrow>
   map_assign (Some a) k v h = Inr (put_map a (DAList.update k v (map_objs h ! a)) h)"
  by (simp add: map_assign_def put_map_def)

lemma put_map_fields [simp]:
  "length (map_objs (put_map a m h)) = length (map_objs h)"
  "std_objs (put_map a m h) = std_objs h"
  "snap_objs (put_map a m h) = snap_objs h"
  "a < length (map_objs h) \<Longrightarrow> map_objs (put_map a m h) ! a = m"
  "b \<noteq> a \<Longrightarrow> map_objs (put_map a m h) ! b = map_objs h ! b"
  by (simp_all add: put_map_def)

lemma range_assign_valid:
  "a < length (map_objs h) \<Longrightarrow>
   range_assign es (Some a) h = Inr (put_map a (merge_entries es (map_objs h ! a)) h)"
proof (induction es arbitrary: h)
  case Nil
  then show ?case by simp
next
  case (Cons e es)
  obtain k v where e: "e = (k, v)" by (cases e)
  let ?h1 = "put_map a (DAList.update k v (map_objs h ! a)) h"
  from Cons.prems have "a < length (map_objs ?h1)" by simp
  from Cons.IH [OF this] Cons.prems show ?case
    by (simp add: e map_assign_valid)
qed

lemma range_assign_nil_target:
  "range_assign es None h = (case es of [] \<Rightarrow> Inr h | _ \<Rightarrow> Inl (Panic ''assignment to entry in nil map''))"
  by (cases es) (auto simp: map_assign_def)

lemma lookup_merge_entries:
  "distinct (map fst es) \<Longrightarrow>
   DAList.lookup (merge_entries es m) = DAList.lookup m ++ map_of es"
proof (induction es arbitrary: m)
  case Nil
  then show ?case by simp
next
  case (Cons e es)
  obtain k v where e: "e = (k, v)" by (cases e)
  from Cons.prems e have fresh: "k \<notin> fst ` set es" and d: "distinct (map fst es)" by auto
  have "DAList.lookup (merge_entries (e # es) m) = DAList.lookup (DAList.update k v m) ++ map_of es"
    by (simp add: e Cons.IH [OF d])
  also have "\<dots> = DAList.lookup m ++ map_of (e # es)"
  proof
    fix x
    show "(DAList.lookup (DAList.update k v m) ++ map_of es) x = (DAList.lookup m ++ map_of (e # es)) x"
    proof -
      from fresh have "map_of es k = None" by (simp add: map_of_eq_None_iff)
      then show ?thesis
        by (simp add: e map_add_def DAList.lookup_update split: option.splits)
    qed
  qed
  finally show ?case .
qed

lemma lookup_copy:
  "DAList.lookup (merge_entries (DAList.impl_of m) DAList.empty) = DAList.lookup m"
proof -
  have "DAList.lookup (merge_entries (DAList.impl_of m) DAList.empty) =
        DAList.lookup DAList.empty ++ map_of (DAList.impl_of m)"
    by (rule lookup_merge_entries) simp
  also have "\<dots> = DAList.lookup m"
    by (rule ext) (simp add: map_add_def DAList.lookup.rep_eq DAList.empty.rep_eq split: option.splits)
  finally show ?thesis .
qed

lemma lookup_merge_alist:
  "DAList.lookup (merge_entries (DAList.impl_of t) m) = DAList.lookup m ++ DAList.lookup t"
proof -
  have "DAList.lookup (merge_entries (DAList.impl_of t) m) = DAList.lookup m ++ map_of (DAList.impl_of t)"
    by (rule lookup_merge_entries) simp
  then show ?thesis by (simp add: DAList.lookup.rep_eq [abs_def])
qed

lemma size_zero_lookup_empty: "size (m :: tagmap) = 0 \<longleftrightarrow> DAList.lookup m = Map.empty"
  by (simp add: size_alist_def DAList.lookup.rep_eq [abs_def] map_of_eq_empty_iff)

subsection \<open>The store after each StandardCounter method\<close>

lemma Clear_effect:
  "c < length (std_objs h) \<Longrightarrow> StandardCounter_Clear c h = Inr ((), set_count c 0 h)"
  by (simp add: StandardCounter_Clear_def atomic_StoreInt64_def std_load_def std_store_def
      set_count_def)

lemma Inc_effect:
  "c < length (std_objs h) \<Longrightarrow>
   StandardCounter_Inc c i h = Inr ((), set_count c (StandardCounter.count (std_objs h ! c) + i) h)"
  by (simp add: StandardCounter_Inc_def atomic_AddInt64_def std_load_def std_store_def
      set_count_def)

lemma Dec_effect:
  "c < length (std_objs h) \<Longrightarrow>
   StandardCounter_Dec c i h = Inr ((), set_count c (StandardCounter.count (std_objs h ! c) - i) h)"
  by (simp add: StandardCounter_Dec_def atomic_AddInt64_def std_load_def std_store_def
      set_count_def)

lemma Count_effect:
  "c < length (std_objs h) \<Longrightarrow>
   StandardCounter_Count c h = Inr (StandardCounter.count (std_objs h ! c), h)"
  by (simp add: StandardCounter_Count_def atomic_LoadInt64_def std_load_def)

lemma GetTags_effect:
  "c < length (std_objs h) \<Longrightarrow>
   StandardCounter_GetTags c h = Inr (StandardCounter.tags (std_objs h ! c), h)"
  by (simp add: StandardCounter_GetTags_def std_load_def)

lemma AddTags_adopt:
  "c < length (std_objs h) \<Longrightarrow> StandardCounter.tags (std_objs h ! c) = None \<Longrightarrow>
   StandardCounter_AddTags c t h = Inr ((), set_tags c t h)"
  by (simp add: StandardCounter_AddTags_def std_load_def std_store_def set_tags_def)

lemma AddTags_merge_nil:
  "c < length (std_objs h) \<Longrightarrow> StandardCounter.tags (std_objs h ! c) = Some b \<Longrightarrow>
   StandardCounter_AddTags c None h = Inr ((), h)"
  by (simp add: StandardCounter_AddTags_def std_load_def map_entries_def)

lemma AddTags_merge:
  "c < length (std_objs h) \<Longrightarrow> StandardCounter.tags (std_objs h ! c) = Some b \<Longrightarrow>
   b < length (map_objs h) \<Longrightarrow> a < length (map_objs h) \<Longrightarrow>
   StandardCounter_AddTags c (Some a) h =
     Inr ((), put_map b (merge_entries (DAList.impl_of (map_objs h ! a)) (map_objs h ! b)) h)"
  by (simp add: StandardCounter_AddTags_def std_load_def map_entries_def range_assign_valid)

lemma Snapshot_no_tags:
  assumes "c < length (std_objs h)"
    and "StandardCounter.tags (std_objs h ! c) = None \<or>
         (\<exists>b. StandardCounter.tags (std_objs h ! c) = Some b \<and> b < length (map_objs h) \<and>
              size (map_objs h ! b) = 0)"
  shows "StandardCounter_Snapshot c h =
     Inr (CounterSnapshotPtr (length (snap_objs h)),
          add_snapshot (StandardCounter.count (std_objs h ! c)) None h)"
  using assms
  by (auto simp: StandardCounter_Snapshot_def std_load_def map_len_def Count_effect
      new_CounterSnapshot_def add_snapshot_def)

lemma Snapshot_copy:
  assumes "c < length (std_objs h)"
    and "StandardCounter.tags (std_objs h ! c) = Some b" and "b < length (map_objs h)"
    and "size (map_objs h ! b) \<noteq> 0"
  shows "StandardCounter_Snapshot c h =
     Inr (CounterSnapshotPtr (length (snap_objs h)),
          add_snapshot (StandardCounter.count (std_objs h ! c)) (Some (length (map_objs h)))
            (add_map (merge_entries (DAList.impl_of (map_objs h ! b)) DAList.empty) h))"
proof -
  let ?h1 = "h\<lparr>map_objs := map_objs h @ [DAList.empty]\<rparr>"
  let ?es = "DAList.impl_of (map_objs h ! b)"
  let ?t = "length (map_objs h)"
  have entries: "map_entries (Some b) ?h1 = Inr ?es"
    using assms(3) by (simp add: map_entries_def nth_append)
  have "?t < length (map_objs ?h1)" by simp
  from range_assign_valid [OF this, of ?es]
  have loop: "range_assign ?es (Some ?t) ?h1 = Inr (add_map (merge_entries ?es DAList.empty) h)"
    by (simp add: put_map_def add_map_def)
  show ?thesis
    using assms
    by (simp add: StandardCounter_Snapshot_def std_load_def map_len_def make_map_def entries
        loop Count_effect new_CounterSnapshot_def add_snapshot_def add_map_def)
qed

subsection \<open>Well-formed stores are preserved\<close>

lemma ref_ok_iff: "ref_ok h t \<longleftrightarrow> (\<forall>a. t = Some a \<longrightarrow> a < length (map_objs h))"
  by (cases t) simp_all

lemma ref_ok_mono:
  "ref_ok h t \<Longrightarrow> length (map_objs h) \<le> length (map_objs h') \<Longrightarrow> ref_ok h' t"
  by (cases t) simp_all

lemma heap_ok_tags:
  "heap_ok h \<Longrightarrow> c < length (std_objs h) \<Longrightarrow> ref_ok h (StandardCounter.tags (std_objs h ! c))"
  by (simp add: heap_ok_def list_all_length)

lemma heap_ok_snap_tags:
  "heap_ok h \<Longrightarrow> s < length (snap_objs h) \<Longrightarrow> ref_ok h (CounterSnapshot.tags (snap_objs h ! s))"
  by (simp add: heap_ok_def list_all_length)

lemma nth_update_cases:
  "n < length xs \<Longrightarrow> xs[c := y] ! n = (if n = c then y else xs ! n)"
  by (cases "n = c") simp_all

lemma heap_ok_set_count: "heap_ok h \<Longrightarrow> heap_ok (set_count c v h)"
  by (auto simp: heap_ok_def set_count_def ref_ok_iff list_all_length nth_update_cases)

lemma heap_ok_set_tags: "heap_ok h \<Longrightarrow> ref_ok h t \<Longrightarrow> heap_ok (set_tags c t h)"
  by (auto simp: heap_ok_def set_tags_def ref_ok_iff list_all_length nth_update_cases)

lemma heap_ok_put_map: "heap_ok h \<Longrightarrow> heap_ok (put_map a m h)"
  by (simp add: heap_ok_def put_map_def ref_ok_iff)

lemma heap_ok_add_map: "heap_ok h \<Longrightarrow> heap_ok (add_map m h)"
  by (auto simp: heap_ok_def list_all_length add_map_def ref_ok_iff split: option.splits
      intro: less_SucI)

lemma heap_ok_add_snapshot: "heap_ok h \<Longrightarrow> ref_ok h t \<Longrightarrow> heap_ok (add_snapshot v t h)"
  by (auto simp: heap_ok_def list_all_length add_snapshot_def ref_ok_iff nth_append)

lemma heap_ok_empty: "heap_ok empty_heap"
  by (simp add: heap_ok_def empty_heap_def)

lemma step_frame_refl: "heap_ok h \<Longrightarrow> step_frame c h h"
  by (simp add: step_frame_def)

lemma step_frame_set_count:
  "heap_ok h \<Longrightarrow> c < length (std_objs h) \<Longrightarrow> step_frame c h (set_count c v h)"
  by (simp add: step_frame_def heap_ok_set_count) (simp add: set_count_def)

lemma step_frame_set_tags:
  "heap_ok h \<Longrightarrow> c < length (std_objs h) \<Longrightarrow> ref_ok h t \<Longrightarrow>
   StandardCounter.tags (std_objs h ! c) = None \<Longrightarrow> step_frame c h (set_tags c t h)"
  by (simp add: step_frame_def heap_ok_set_tags) (simp add: set_tags_def)

lemma step_frame_put_map:
  "heap_ok h \<Longrightarrow> StandardCounter.tags (std_objs h ! c) = Some b \<Longrightarrow>
   step_frame c h (put_map b m h)"
  by (auto simp: step_frame_def heap_ok_put_map)

lemma step_frame_snapshot:
  "heap_ok h \<Longrightarrow> ref_ok (add_map m h) t \<Longrightarrow>
   step_frame c h (add_snapshot v t (add_map m h))"
  by (auto simp: step_frame_def heap_ok_add_snapshot heap_ok_add_map)
    (simp_all add: add_snapshot_def add_map_def nth_append)

lemma step_frame_snapshot_no_tags:
  "heap_ok h \<Longrightarrow> step_frame c h (add_snapshot v None h)"
  by (auto simp: step_frame_def heap_ok_add_snapshot ref_ok_iff)
    (simp_all add: add_snapshot_def nth_append)

lemma StandardCounter_step:
  assumes ok: "heap_ok h" and c: "c < length (std_objs h)" and x: "call_ok h x"
  shows "\<exists>r h'. invoke (StandardCounterPtr c) x h = Inr (r, h') \<and> step_frame c h h'"
proof (cases x)
  case Clear
  with ok c show ?thesis by (simp add: ret_def Clear_effect step_frame_set_count)
next
  case Count
  with ok c show ?thesis by (simp add: ret_def Count_effect step_frame_refl)
next
  case (Dec i)
  with ok c show ?thesis by (simp add: ret_def Dec_effect step_frame_set_count)
next
  case (Inc i)
  with ok c show ?thesis by (simp add: ret_def Inc_effect step_frame_set_count)
next
  case GetTags
  with ok c show ?thesis by (simp add: ret_def GetTags_effect step_frame_refl)
next
  case (AddTags t)
  with x have t: "ref_ok h t" by simp
  show ?thesis
  proof (cases "StandardCounter.tags (std_objs h ! c)")
    case None
    with ok c t AddTags show ?thesis
      by (simp add: ret_def AddTags_adopt step_frame_set_tags)
  next
    case (Some b)
    from heap_ok_tags [OF ok c] Some have b: "b < length (map_objs h)" by (simp add: ref_ok_iff)
    show ?thesis
    proof (cases t)
      case None
      with ok c Some AddTags show ?thesis
        by (simp add: ret_def AddTags_merge_nil step_frame_refl)
    next
      case (Some a)
      with t have "a < length (map_objs h)" by (simp add: ref_ok_iff)
      with ok c \<open>StandardCounter.tags (std_objs h ! c) = Some b\<close> b AddTags Some show ?thesis
        by (simp add: ret_def AddTags_merge step_frame_put_map)
    qed
  qed
next
  case Snapshot
  show ?thesis
  proof (cases "StandardCounter.tags (std_objs h ! c)")
    case None
    with ok c Snapshot show ?thesis
      by (simp add: ret_def Snapshot_no_tags step_frame_snapshot_no_tags)
  next
    case (Some b)
    from heap_ok_tags [OF ok c] Some have b: "b < length (map_objs h)" by (simp add: ref_ok_iff)
    show ?thesis
    proof (cases "size (map_objs h ! b) = 0")
      case True
      with ok c Some b Snapshot show ?thesis
        by (simp add: ret_def Snapshot_no_tags step_frame_snapshot_no_tags)
    next
      case False
      have "ref_ok (add_map m h) (Some (length (map_objs h)))" for m
        by (simp add: ref_ok_iff add_map_def)
      with False ok c Some b Snapshot show ?thesis
        by (simp add: ret_def Snapshot_copy step_frame_snapshot)
    qed
  qed
qed

subsection \<open>A snapshot stays intact under calls on the original\<close>

lemma call_ok_mono:
  "call_ok h x \<Longrightarrow> length (map_objs h) \<le> length (map_objs h') \<Longrightarrow> call_ok h' x"
  by (cases x) (auto intro: ref_ok_mono)

lemma snapshot_kept_step:
  assumes kept: "snapshot_kept c s h1 h'" and x: "call_ok h1 x"
  shows "\<exists>r h''. invoke (StandardCounterPtr c) x h' = Inr (r, h'') \<and> snapshot_kept c s h1 h''"
proof -
  from kept have ok: "heap_ok h'" and c: "c < length (std_objs h')"
    and grow: "length (map_objs h1) \<le> length (map_objs h')"
    by (simp_all add: snapshot_kept_def)
  from call_ok_mono [OF x grow] have "call_ok h' x" .
  from StandardCounter_step [OF ok c this]
  obtain r h'' where run: "invoke (StandardCounterPtr c) x h' = Inr (r, h'')"
    and frame: "step_frame c h' h''" by blast
  have "snapshot_kept c s h1 h''"
    unfolding snapshot_kept_def
  proof (intro conjI allI impI)
    from frame show "heap_ok h''" by (simp add: step_frame_def)
    from frame c show "c < length (std_objs h'')" by (simp add: step_frame_def)
    from frame kept show "s < length (snap_objs h'')"
      by (simp add: step_frame_def snapshot_kept_def)
    from frame kept show "snap_objs h'' ! s = snap_objs h1 ! s"
      by (simp add: step_frame_def snapshot_kept_def)
    from frame grow show "length (map_objs h1) \<le> length (map_objs h'')"
      by (simp add: step_frame_def)
  next
    fix a assume a: "CounterSnapshot.tags (snap_objs h1 ! s) = Some a"
    with kept have a1: "a < length (map_objs h1)" and same: "map_objs h' ! a = map_objs h1 ! a"
      and "\<exists>b. StandardCounter.tags (std_objs h' ! c) = Some b \<and> b \<noteq> a"
      by (simp_all add: snapshot_kept_def)
    then obtain b where b: "StandardCounter.tags (std_objs h' ! c) = Some b" "b \<noteq> a" by blast
    from a1 show "a < length (map_objs h1)" .
    from a1 grow have "a < length (map_objs h')" by simp
    with frame b have "map_objs h'' ! a = map_objs h' ! a" by (simp add: step_frame_def)
    with same show "map_objs h'' ! a = map_objs h1 ! a" by simp
    from frame b show "\<exists>b. StandardCounter.tags (std_objs h'' ! c) = Some b \<and> b \<noteq> a"
      by (simp add: step_frame_def)
  qed
  with run show ?thesis by blast
qed

lemma snapshot_kept_all:
  "snapshot_kept c s h1 h' \<Longrightarrow> list_all (call_ok h1) ops \<Longrightarrow>
   \<exists>rs h''. invoke_all (StandardCounterPtr c) ops h' = Inr (rs, h'') \<and> snapshot_kept c s h1 h''"
proof (induction ops arbitrary: h')
  case Nil
  then show ?case by simp
next
  case (Cons x xs)
  from Cons.prems have x: "call_ok h1 x" and xs: "list_all (call_ok h1) xs" by simp_all
  from snapshot_kept_step [OF Cons.prems(1) x]
  obtain r h2 where one: "invoke (StandardCounterPtr c) x h' = Inr (r, h2)"
    and kept: "snapshot_kept c s h1 h2" by blast
  from Cons.IH [OF kept xs]
  obtain rs h3 where "invoke_all (StandardCounterPtr c) xs h2 = Inr (rs, h3)"
    and "snapshot_kept c s h1 h3" by blast
  with one show ?case by (simp del: invoke.simps)
qed

lemma snapshot_kept_observe:
  assumes "snapshot_kept c s h1 h'"
  shows "invoke (CounterSnapshotPtr s) Count h' =
           Inr (RetInt64 (CounterSnapshot.count (snap_objs h1 ! s)), h')"
    and "invoke (CounterSnapshotPtr s) GetTags h' =
           Inr (RetTags (CounterSnapshot.tags (snap_objs h1 ! s)), h')"
    and "tag_set h' (CounterSnapshot.tags (snap_objs h1 ! s)) =
           tag_set h1 (CounterSnapshot.tags (snap_objs h1 ! s))"
  using assms
  by (auto simp: snapshot_kept_def ret_def CounterSnapshot_Count_def CounterSnapshot_GetTags_def
      snap_load_def tag_set_def split: option.splits)

lemma Snapshot_taken:
  assumes ok: "heap_ok h" and c: "c < length (std_objs h)"
  shows "\<exists>s h1. StandardCounter_Snapshot c h = Inr (CounterSnapshotPtr s, h1) \<and>
     snapshot_kept c s h1 h1 \<and>
     CounterSnapshot.count (snap_objs h1 ! s) = StandardCounter.count (std_objs h ! c) \<and>
     tag_set h1 (CounterSnapshot.tags (snap_objs h1 ! s)) =
       tag_set h (StandardCounter.tags (std_objs h ! c)) \<and>
     (tag_set h (StandardCounter.tags (std_objs h ! c)) = Map.empty \<longrightarrow>
        CounterSnapshot.tags (snap_objs h1 ! s) = None) \<and>
     (\<forall>a. CounterSnapshot.tags (snap_objs h1 ! s) = Some a \<longrightarrow> a = length (map_objs h))"
proof (cases "StandardCounter.tags (std_objs h ! c)")
  case None
  let ?h1 = "add_snapshot (StandardCounter.count (std_objs h ! c)) None h"
  from c None have "StandardCounter_Snapshot c h = Inr (CounterSnapshotPtr (length (snap_objs h)), ?h1)"
    by (simp add: Snapshot_no_tags)
  moreover have "snapshot_kept c (length (snap_objs h)) ?h1 ?h1"
    using ok c by (simp add: snapshot_kept_def heap_ok_add_snapshot) (simp add: add_snapshot_def)
  ultimately show ?thesis
    using None by (simp add: add_snapshot_def tag_set_def)
next
  case (Some b)
  from heap_ok_tags [OF ok c] Some have b: "b < length (map_objs h)" by simp
  show ?thesis
  proof (cases "size (map_objs h ! b) = 0")
    case True
    let ?h1 = "add_snapshot (StandardCounter.count (std_objs h ! c)) None h"
    from c Some b True
    have "StandardCounter_Snapshot c h = Inr (CounterSnapshotPtr (length (snap_objs h)), ?h1)"
      by (simp add: Snapshot_no_tags)
    moreover have "snapshot_kept c (length (snap_objs h)) ?h1 ?h1"
      using ok c by (simp add: snapshot_kept_def heap_ok_add_snapshot) (simp add: add_snapshot_def)
    ultimately show ?thesis
      using Some True by (simp add: add_snapshot_def tag_set_def size_zero_lookup_empty)
  next
    case False
    let ?m = "merge_entries (DAList.impl_of (map_objs h ! b)) DAList.empty"
    let ?h1 = "add_snapshot (StandardCounter.count (std_objs h ! c)) (Some (length (map_objs h)))
                 (add_map ?m h)"
    from c Some b False
    have run: "StandardCounter_Snapshot c h = Inr (CounterSnapshotPtr (length (snap_objs h)), ?h1)"
      by (simp add: Snapshot_copy)
    have "heap_ok ?h1"
      by (rule heap_ok_add_snapshot [OF heap_ok_add_map [OF ok]]) (simp add: add_map_def)
    then have kept: "snapshot_kept c (length (snap_objs h)) ?h1 ?h1"
      using c Some b by (simp add: snapshot_kept_def) (auto simp: add_snapshot_def add_map_def)
    from False have "tag_set h (Some b) \<noteq> Map.empty"
      by (simp add: tag_set_def size_zero_lookup_empty)
    with run kept Some show ?thesis
      by (simp add: add_snapshot_def add_map_def tag_set_def lookup_copy)
  qed
qed

subsection \<open>The order of a range loop does not matter\<close>

lemma merge_entries_order:
  assumes "distinct (map fst es)" and "distinct (map fst es')" and "set es = set es'"
  shows "DAList.lookup (merge_entries es m) = DAList.lookup (merge_entries es' m)"
proof -
  from assms have "map_of es = map_of es'" by (simp add: map_of_inject_set)
  with assms(1,2) show ?thesis by (simp add: lookup_merge_entries)
qed

lemma heap_two_ok: "heap_ok heap_two"
  by (simp add: heap_two_def heap_ok_def)

subsection \<open>Which calls fail\<close>

lemma CounterSnapshot_reads:
  assumes "s < length (snap_objs h)"
  shows "invoke (CounterSnapshotPtr s) Count h =
           Inr (RetInt64 (CounterSnapshot.count (snap_objs h ! s)), h)"
    and "invoke (CounterSnapshotPtr s) GetTags h =
           Inr (RetTags (CounterSnapshot.tags (snap_objs h ! s)), h)"
    and "invoke (CounterSnapshotPtr s) Snapshot h = Inr (RetCounter (CounterSnapshotPtr s), h)"
  using assms
  by (simp_all add: ret_def CounterSnapshot_Count_def CounterSnapshot_GetTags_def
      CounterSnapshot_Snapshot_def snap_load_def)

lemma CounterSnapshot_mutation_panics:
  "is_mutation x \<Longrightarrow> \<exists>msg. invoke (CounterSnapshotPtr s) x h = Inl (Panic msg)"
  by (cases x)
    (simp_all add: ret_def CounterSnapshot_Clear_def CounterSnapshot_Dec_def
      CounterSnapshot_Inc_def CounterSnapshot_AddTags_def)

lemma failing_calls:
  assumes ok: "heap_ok h" and k: "counter_ok h k" and x: "call_ok h x"
  shows "(\<exists>e. invoke k x h = Inl e) \<longleftrightarrow> is_snapshot k \<and> is_mutation x"
proof (cases k)
  case NilCounter
  then show ?thesis by (simp add: invoke_NilCounter del: invoke.simps)
next
  case (StandardCounterPtr c)
  with k have "c < length (std_objs h)" by simp
  from StandardCounter_step [OF ok this x] StandardCounterPtr show ?thesis
    by (auto simp del: invoke.simps)
next
  case (CounterSnapshotPtr s)
  with k have s: "s < length (snap_objs h)" by simp
  show ?thesis
  proof (cases "is_mutation x")
    case True
    from CounterSnapshot_mutation_panics [OF True, of s h] CounterSnapshotPtr True
    show ?thesis by (auto simp del: invoke.simps)
  next
    case False
    then have "x = Count \<or> x = GetTags \<or> x = Snapshot" by (cases x) simp_all
    with CounterSnapshot_reads [OF s] CounterSnapshotPtr False show ?thesis
      by (auto simp del: invoke.simps)
  qed
qed

subsection \<open>Fields a method leaves alone\<close>

lemma Snapshot_frame:
  assumes ok: "heap_ok h" and c: "c < length (std_objs h)"
  shows "\<exists>k h'. StandardCounter_Snapshot c h = Inr (k, h') \<and> std_objs h' = std_objs h \<and>
           take (length (map_objs h)) (map_objs h') = map_objs h \<and>
           tag_set h' (StandardCounter.tags (std_objs h ! c)) =
             tag_set h (StandardCounter.tags (std_objs h ! c))"
proof (cases "StandardCounter.tags (std_objs h ! c)")
  case None
  with c show ?thesis
    by (simp add: Snapshot_no_tags add_snapshot_def tag_set_def)
next
  case (Some b)
  from heap_ok_tags [OF ok c] Some have b: "b < length (map_objs h)" by simp
  show ?thesis
  proof (cases "size (map_objs h ! b) = 0")
    case True
    with c Some b show ?thesis
      by (simp add: Snapshot_no_tags add_snapshot_def tag_set_def)
  next
    case False
    with c Some b show ?thesis
      by (simp add: Snapshot_copy add_snapshot_def add_map_def tag_set_def nth_append)
  qed
qed

lemma AddTags_frame:
  assumes ok: "heap_ok h" and c: "c < length (std_objs h)" and t: "ref_ok h t"
  shows "\<exists>h'. StandardCounter_AddTags c t h = Inr ((), h') \<and>
           StandardCounter.count (std_objs h' ! c) = StandardCounter.count (std_objs h ! c)"
proof (cases "StandardCounter.tags (std_objs h ! c)")
  case None
  with c show ?thesis by (simp add: AddTags_adopt set_tags_def)
next
  case (Some b)
  from heap_ok_tags [OF ok c] Some have b: "b < length (map_objs h)" by simp
  show ?thesis
  proof (cases t)
    case None
    with c Some show ?thesis by (simp add: AddTags_merge_nil)
  next
    case (Some a)
    with t have "a < length (map_objs h)" by simp
    with c \<open>StandardCounter.tags (std_objs h ! c) = Some b\<close> b Some show ?thesis
      by (simp add: AddTags_merge)
  qed
qed

subsection \<open>AddTags on concrete stores\<close>

lemma heap_example_eq:
  "heap_example =
     \<lparr>map_objs = [DAList.update ''a'' ''1'' DAList.empty,
                  DAList.update ''b'' ''3'' (DAList.update ''a'' ''2'' DAList.empty)],
      std_objs = [\<lparr>StandardCounter.count = 0, tags = None\<rparr>],
      snap_objs = []\<rparr>"
  by (simp add: heap_example_def map_literal_def add_map_def NewCounter_def
      new_StandardCounter_def empty_heap_def)

lemma AddTags_example:
  "\<exists>h3. invoke_all (StandardCounterPtr 0) [AddTags (Some 0), AddTags (Some 1), GetTags]
           heap_example = Inr ([RetUnit, RetUnit, RetTags (Some 0)], h3) \<and>
        tag_set h3 (Some 0) = [''a'' \<mapsto> ''2'', ''b'' \<mapsto> ''3'']"
proof -
  let ?h1 = "set_tags 0 (Some 0) heap_example"
  let ?m = "merge_entries (DAList.impl_of (map_objs ?h1 ! 1)) (map_objs ?h1 ! 0)"
  let ?h2 = "put_map 0 ?m ?h1"
  have one: "StandardCounter_AddTags 0 (Some 0) heap_example = Inr ((), ?h1)"
    by (rule AddTags_adopt) (simp_all add: heap_example_eq)
  have two: "StandardCounter_AddTags 0 (Some 1) ?h1 = Inr ((), ?h2)"
    by (rule AddTags_merge) (simp_all add: heap_example_eq set_tags_def)
  have three: "StandardCounter_GetTags 0 ?h2 = Inr (Some 0, ?h2)"
    by (simp add: GetTags_effect heap_example_eq set_tags_def put_map_def)
  have "tag_set ?h2 (Some 0) = DAList.lookup ?m"
    by (simp add: tag_set_def heap_example_eq set_tags_def put_map_def)
  also have "\<dots> = [''a'' \<mapsto> ''2'', ''b'' \<mapsto> ''3'']"
    by (rule ext)
      (simp add: heap_example_eq set_tags_def DAList.update.rep_eq DAList.empty.rep_eq
        DAList.lookup_update)
  finally have "tag_set ?h2 (Some 0) = [''a'' \<mapsto> ''2'', ''b'' \<mapsto> ''3'']" .
  with one two three show ?thesis by (simp add: ret_def)
qed

lemma AddTags_merge_tag_set:
  assumes ok: "heap_ok h" and c: "c < length (std_objs h)" and t: "ref_ok h t"
    and b: "StandardCounter.tags (std_objs h ! c) = Some b"
  shows "\<exists>h'. StandardCounter_AddTags c t h = Inr ((), h') \<and>
           StandardCounter_GetTags c h' = Inr (Some b, h') \<and>
           tag_set h' (Some b) = tag_set h (Some b) ++ tag_set h t \<and>
           std_objs h' = std_objs h \<and> snap_objs h' = snap_objs h \<and>
           length (map_objs h') = length (map_objs h) \<and>
           (\<forall>a. a \<noteq> b \<longrightarrow> map_objs h' ! a = map_objs h ! a)"
proof -
  from heap_ok_tags [OF ok c] b have bv: "b < length (map_objs h)" by simp
  show ?thesis
  proof (cases t)
    case None
    with c b show ?thesis
      by (simp add: AddTags_merge_nil GetTags_effect tag_set_def)
  next
    case (Some a)
    with t have "a < length (map_objs h)" by simp
    with c b bv Some show ?thesis
      by (simp add: AddTags_merge GetTags_effect tag_set_def lookup_merge_alist)
  qed
qed

lemma heap_fresh_eq:
  "heap_fresh =
     \<lparr>map_objs = [DAList.empty, DAList.update ''a'' ''1'' DAList.empty],
      std_objs = [\<lparr>StandardCounter.count = 0, tags = None\<rparr>],
      snap_objs = []\<rparr>"
  by (simp add: heap_fresh_def map_literal_def make_map_def add_map_def NewCounter_def
      new_StandardCounter_def empty_heap_def)

section \<open>The claims\<close>

text \<open>
  C1. Start from a fresh StandardCounter, as \<open>NewCounter\<close> makes it when metrics are
  enabled, and apply any sequence of \<open>Inc\<close> and \<open>Dec\<close> calls, in any interleaving. Every
  call returns, and \<open>Count()\<close> then returns the sum of the increments minus the sum of the
  decrements in \<open>int64\<close> arithmetic: read as a signed number it is the integer sum wrapped
  to 64 bits in two's complement, and it is congruent to the integer sum modulo \<open>2^64\<close>.
\<close>

theorem Count_after_Inc_Dec:
  assumes "list_all inc_dec_only ops"
  shows "case NewCounter False h of
           (k, h1) \<Rightarrow>
             \<exists>rs h2. invoke_all k ops h1 = Inr (rs, h2) \<and>
               invoke k Count h2 =
                 Inr (RetInt64 (sum_list (increments ops) - sum_list (decrements ops)), h2) \<and>
               sint (sum_list (increments ops) - sum_list (decrements ops)) =
                 signed_take_bit 63
                   (sum_list (map sint (increments ops)) - sum_list (map sint (decrements ops))) \<and>
               uint (sum_list (increments ops) - sum_list (decrements ops)) =
                 (sum_list (map sint (increments ops)) - sum_list (map sint (decrements ops)))
                   mod 2 ^ 64"
proof -
  let ?c = "length (std_objs h)"
  let ?h1 = "h\<lparr>std_objs := std_objs h @ [\<lparr>StandardCounter.count = 0, tags = None\<rparr>]\<rparr>"
  have new: "NewCounter False h = (StandardCounterPtr ?c, ?h1)"
    by (simp add: NewCounter_def new_StandardCounter_def)
  have valid: "?c < length (std_objs ?h1)" by simp
  from invoke_all_inc_dec [OF assms valid]
  obtain rs h2 where run: "invoke_all (StandardCounterPtr ?c) ops ?h1 = Inr (rs, h2)"
    and v2: "?c < length (std_objs h2)"
    and cnt: "StandardCounter.count (std_objs h2 ! ?c) =
       sum_list (increments ops) - sum_list (decrements ops)"
    by auto
  from v2 cnt have "invoke (StandardCounterPtr ?c) Count h2 =
      Inr (RetInt64 (sum_list (increments ops) - sum_list (decrements ops)), h2)"
    by (simp add: StandardCounter_Count_def atomic_LoadInt64_def std_load_def ret_def)
  with run new show ?thesis
    by (simp add: sint_sum_diff uint_sum_diff)
qed

text \<open>
  The theorem at \<open>Inc(2^63 - 1)\<close>, \<open>Dec(5)\<close>, \<open>Inc(7)\<close> on the empty store: the sum
  \<open>2^63 + 1\<close> overflows, and \<open>Count()\<close> returns \<open>-(2^63 - 1)\<close>.
\<close>

theorem Count_after_Inc_Dec_witness:
  "list_all inc_dec_only [Inc 9223372036854775807, Dec 5, Inc 7] \<and>
   (case NewCounter False empty_heap of
      (k, h1) \<Rightarrow>
        \<exists>rs h2. invoke_all k [Inc 9223372036854775807, Dec 5, Inc 7] h1 = Inr (rs, h2) \<and>
          invoke k Count h2 = Inr (RetInt64 9223372036854775809, h2)) \<and>
   sint (9223372036854775809 :: int64) = - 9223372036854775807"
  using Count_after_Inc_Dec [of "[Inc 9223372036854775807, Dec 5, Inc 7]" empty_heap]
  by (simp add: NewCounter_def new_StandardCounter_def empty_heap_def)

text \<open>
  C5. On every StandardCounter, whatever it holds, \<open>Clear()\<close> returns and a \<open>Count()\<close>
  right after it returns 0.
\<close>

theorem Clear_then_Count_zero:
  assumes "c < length (std_objs h)"
  shows "\<exists>h1. StandardCounter_Clear c h = Inr ((), h1) \<and>
              StandardCounter_Count c h1 = Inr (0, h1) \<and>
              invoke_all (StandardCounterPtr c) [Clear, Count] h =
                Inr ([RetUnit, RetInt64 0], h1)"
  using assms
  by (simp add: StandardCounter_Clear_def StandardCounter_Count_def atomic_StoreInt64_def
      atomic_LoadInt64_def std_load_def std_store_def ret_def)

text \<open>The theorem at a counter that holds 41.\<close>

theorem Clear_then_Count_zero_witness:
  "0 < length (std_objs heap_one) \<and>
   StandardCounter_Count 0 heap_one = Inr (41, heap_one) \<and>
   (\<exists>h1. StandardCounter_Clear 0 heap_one = Inr ((), h1) \<and>
         StandardCounter_Count 0 h1 = Inr (0, h1) \<and>
         invoke_all (StandardCounterPtr 0) [Clear, Count] heap_one =
           Inr ([RetUnit, RetInt64 0], h1))"
proof -
  have v: "0 < length (std_objs heap_one)" by (simp add: heap_one_def)
  have "StandardCounter_Count 0 heap_one = Inr (41, heap_one)"
    by (simp add: heap_one_def StandardCounter_Count_def atomic_LoadInt64_def std_load_def)
  with v Clear_then_Count_zero [OF v] show ?thesis by blast
qed

text \<open>
  C6. \<open>Snapshot()\<close> on a CounterSnapshot returns the receiver: the same pointer, in an
  unchanged store. So the result reports the same \<open>Count()\<close> and the same \<open>GetTags()\<close>
  as the receiver, and a snapshot of the result is again the same object.
\<close>

theorem Snapshot_of_snapshot_is_receiver:
  "CounterSnapshot_Snapshot s h = Inr (CounterSnapshotPtr s, h) \<and>
   (case CounterSnapshot_Snapshot s h of
      Inl e \<Rightarrow> False
    | Inr (k, h') \<Rightarrow>
        k = CounterSnapshotPtr s \<and> h' = h \<and>
        invoke k Count h' = invoke (CounterSnapshotPtr s) Count h \<and>
        invoke k GetTags h' = invoke (CounterSnapshotPtr s) GetTags h \<and>
        invoke k Snapshot h' = Inr (RetCounter k, h'))"
  by (simp add: CounterSnapshot_Snapshot_def ret_def)

text \<open>
  C7. Any sequence of calls on a NilCounter returns, leaves the store as it was (so
  \<open>Clear\<close>, \<open>Inc\<close>, \<open>Dec\<close> and \<open>AddTags\<close> do nothing), and each call returns what the
  specification says: \<open>Count()\<close> 0, \<open>Snapshot()\<close> a NilCounter, \<open>GetTags()\<close> the nil
  map. In particular \<open>GetTags()\<close> after an \<open>AddTags\<close>, at the end of any sequence, is
  still nil, which stands for the empty tag set.
\<close>

theorem NilCounter_inert:
  "invoke_all NilCounter ops h = Inr (map NilCounter_expected ops, h) \<and>
   invoke_all NilCounter (ops @ [AddTags t, GetTags, Count, Snapshot]) h =
     Inr (map NilCounter_expected ops @
            [RetUnit, RetTags None, RetInt64 0, RetCounter NilCounter], h) \<and>
   tag_set h None = Map.empty"
proof -
  have "invoke_all NilCounter xs h = Inr (map NilCounter_expected xs, h)" for xs
    by (induction xs) (simp_all add: invoke_NilCounter)
  then show ?thesis by (simp add: tag_set_def)
qed

text \<open>
  C8. With \<open>UseNilMetrics\<close> set, \<open>NewCounter()\<close> returns a NilCounter and allocates
  nothing. Otherwise it returns a pointer to a new StandardCounter object, at an address
  no object had before, next to the unchanged old objects; the new counter's \<open>Count()\<close>
  is 0 and its \<open>GetTags()\<close> is the nil map, the empty tag set.
\<close>

theorem NewCounter_cases:
  "NewCounter True h = (NilCounter, h) \<and>
   (case NewCounter False h of
      (k, h') \<Rightarrow>
        k = StandardCounterPtr (length (std_objs h)) \<and>
        std_objs h' = std_objs h @ [\<lparr>StandardCounter.count = 0, tags = None\<rparr>] \<and>
        map_objs h' = map_objs h \<and> snap_objs h' = snap_objs h \<and>
        invoke k Count h' = Inr (RetInt64 0, h') \<and>
        invoke k GetTags h' = Inr (RetTags None, h') \<and>
        tag_set h' None = Map.empty)"
  by (simp add: NewCounter_def new_StandardCounter_def ret_def StandardCounter_Count_def
      StandardCounter_GetTags_def atomic_LoadInt64_def std_load_def tag_set_def)

text \<open>
  C9. \<open>Dec(i)\<close> and \<open>Inc(-i)\<close> have the same outcome on every store, where \<open>-i\<close> is
  negation in \<open>int64\<close>: both leave the count decreased by \<open>i\<close>, with wrap-around. This
  includes the least \<open>int64\<close>, \<open>-2^63\<close>, which is its own negation. The signed reading
  of \<open>-i\<close> is the integer \<open>-i\<close> wrapped to 64 bits.
\<close>

theorem Dec_is_Inc_of_negation:
  "StandardCounter_Dec c i h = StandardCounter_Inc c (- i) h \<and>
   StandardCounter_Dec c i h =
     (case std_load c h of
        Inl e \<Rightarrow> Inl e
      | Inr sc \<Rightarrow> Inr ((), set_count c (StandardCounter.count sc - i) h)) \<and>
   StandardCounter_Dec c (- 9223372036854775808) h =
     StandardCounter_Inc c (- 9223372036854775808) h \<and>
   sint (- 9223372036854775808 :: int64) = - (2 ^ 63) \<and>
   - (- 9223372036854775808 :: int64) = - 9223372036854775808 \<and>
   sint (- i) = signed_take_bit 63 (- sint i)"
proof -
  have same: "StandardCounter_Dec c j h = StandardCounter_Inc c (- j) h" for j
    by (simp add: StandardCounter_Dec_def StandardCounter_Inc_def)
  have effect: "StandardCounter_Dec c i h =
     (case std_load c h of
        Inl e \<Rightarrow> Inl e
      | Inr sc \<Rightarrow> Inr ((), set_count c (StandardCounter.count sc - i) h))"
    by (simp add: StandardCounter_Dec_def atomic_AddInt64_def std_load_def std_store_def
        set_count_def)
  have least: "sint (- 9223372036854775808 :: int64) = - (2 ^ 63)"
    and self_negation: "- (- 9223372036854775808 :: int64) = - 9223372036854775808"
    by simp_all
  have wrapped: "sint (- i) = signed_take_bit 63 (- sint i)"
    by (simp add: sint_word_ariths)
  from same [of i] same [of "- 9223372036854775808"] effect least self_negation wrapped
  show ?thesis by (simp only: simp_thms)
qed

text \<open>
  C2. Take a well-formed store and a StandardCounter in it with value \<open>V\<close> and tags
  \<open>T\<close>. \<open>Snapshot()\<close> returns a CounterSnapshot whose \<open>Count()\<close> is \<open>V\<close> and whose
  \<open>GetTags()\<close> stands for the same tag set as \<open>T\<close>; it is nil when that tag set is
  empty, and otherwise it refers to a map object that did not exist before the call, so
  it is shared with no map of the caller or of the counter. After any sequence of calls on
  the original counter (\<open>Inc\<close>, \<open>Dec\<close>, \<open>Clear\<close>, \<open>AddTags\<close> with any map of the store,
  also the snapshot's own, and the reading methods as well), every call returns and the
  snapshot's \<open>Count()\<close> and \<open>GetTags()\<close> return what they returned before, the map
  holding the same entries.
\<close>

theorem Snapshot_independent:
  assumes "heap_ok h" and "c < length (std_objs h)"
  shows "case StandardCounter_Snapshot c h of
           Inl e \<Rightarrow> False
         | Inr (k, h1) \<Rightarrow>
             (\<exists>r. invoke k Count h1 = Inr (RetInt64 (StandardCounter.count (std_objs h ! c)), h1) \<and>
                  invoke k GetTags h1 = Inr (RetTags r, h1) \<and>
                  tag_set h1 r = tag_set h (StandardCounter.tags (std_objs h ! c)) \<and>
                  (tag_set h (StandardCounter.tags (std_objs h ! c)) = Map.empty \<longrightarrow> r = None) \<and>
                  (\<forall>a. r = Some a \<longrightarrow> a = length (map_objs h)) \<and>
                  (\<forall>ops. list_all (call_ok h1) ops \<longrightarrow>
                     (\<exists>rs h2. invoke_all (StandardCounterPtr c) ops h1 = Inr (rs, h2) \<and>
                        invoke k Count h2 =
                          Inr (RetInt64 (StandardCounter.count (std_objs h ! c)), h2) \<and>
                        invoke k GetTags h2 = Inr (RetTags r, h2) \<and>
                        tag_set h2 r = tag_set h1 r)))"
proof -
  from Snapshot_taken [OF assms]
  obtain s h1 where run: "StandardCounter_Snapshot c h = Inr (CounterSnapshotPtr s, h1)"
    and kept: "snapshot_kept c s h1 h1"
    and cnt: "CounterSnapshot.count (snap_objs h1 ! s) = StandardCounter.count (std_objs h ! c)"
    and tgs: "tag_set h1 (CounterSnapshot.tags (snap_objs h1 ! s)) =
       tag_set h (StandardCounter.tags (std_objs h ! c))"
    and absent: "tag_set h (StandardCounter.tags (std_objs h ! c)) = Map.empty \<longrightarrow>
        CounterSnapshot.tags (snap_objs h1 ! s) = None"
    and new: "\<forall>a. CounterSnapshot.tags (snap_objs h1 ! s) = Some a \<longrightarrow> a = length (map_objs h)"
    by blast
  let ?r = "CounterSnapshot.tags (snap_objs h1 ! s)"
  let ?V = "StandardCounter.count (std_objs h ! c)"
  have later: "\<exists>rs h2. invoke_all (StandardCounterPtr c) ops h1 = Inr (rs, h2) \<and>
      invoke (CounterSnapshotPtr s) Count h2 = Inr (RetInt64 ?V, h2) \<and>
      invoke (CounterSnapshotPtr s) GetTags h2 = Inr (RetTags ?r, h2) \<and>
      tag_set h2 ?r = tag_set h1 ?r"
    if "list_all (call_ok h1) ops" for ops
  proof -
    from snapshot_kept_all [OF kept that]
    obtain rs h2 where all: "invoke_all (StandardCounterPtr c) ops h1 = Inr (rs, h2)"
      and kept2: "snapshot_kept c s h1 h2" by blast
    from snapshot_kept_observe [OF kept2] cnt all show ?thesis by simp
  qed
  from snapshot_kept_observe [OF kept] cnt
  have now: "invoke (CounterSnapshotPtr s) Count h1 = Inr (RetInt64 ?V, h1)"
    "invoke (CounterSnapshotPtr s) GetTags h1 = Inr (RetTags ?r, h1)" by simp_all
  from now tgs absent new later have
    "\<exists>r. invoke (CounterSnapshotPtr s) Count h1 = Inr (RetInt64 ?V, h1) \<and>
         invoke (CounterSnapshotPtr s) GetTags h1 = Inr (RetTags r, h1) \<and>
         tag_set h1 r = tag_set h (StandardCounter.tags (std_objs h ! c)) \<and>
         (tag_set h (StandardCounter.tags (std_objs h ! c)) = Map.empty \<longrightarrow> r = None) \<and>
         (\<forall>a. r = Some a \<longrightarrow> a = length (map_objs h)) \<and>
         (\<forall>ops. list_all (call_ok h1) ops \<longrightarrow>
            (\<exists>rs h2. invoke_all (StandardCounterPtr c) ops h1 = Inr (rs, h2) \<and>
               invoke (CounterSnapshotPtr s) Count h2 = Inr (RetInt64 ?V, h2) \<and>
               invoke (CounterSnapshotPtr s) GetTags h2 = Inr (RetTags r, h2) \<and>
               tag_set h2 r = tag_set h1 r))"
    by (intro exI [of _ ?r] conjI allI impI) blast+
  with run show ?thesis by (simp only: sum.case prod.case)
qed

text \<open>
  The theorem at the counter of \<open>heap_two\<close> (value 7, tags \<open>{"a": "1"}\<close>), followed by
  \<open>Inc(3)\<close>, \<open>AddTags({"b": "2"})\<close>, \<open>Clear()\<close> and \<open>AddTags\<close> of the snapshot's own
  map: the snapshot still reports 7 and its copy at address 2.
\<close>

theorem Snapshot_independent_witness:
  "heap_ok heap_two \<and> 0 < length (std_objs heap_two) \<and>
   (case StandardCounter_Snapshot 0 heap_two of
      Inl e \<Rightarrow> False
    | Inr (k, h1) \<Rightarrow>
        k = CounterSnapshotPtr 0 \<and>
        list_all (call_ok h1) [Inc 3, AddTags (Some 1), Clear, AddTags (Some 2)] \<and>
        (\<exists>rs h2. invoke_all (StandardCounterPtr 0)
                    [Inc 3, AddTags (Some 1), Clear, AddTags (Some 2)] h1 = Inr (rs, h2) \<and>
           invoke k Count h2 = Inr (RetInt64 7, h2) \<and>
           invoke k GetTags h2 = Inr (RetTags (Some 2), h2) \<and>
           tag_set h2 (Some 2) = tag_set heap_two (Some 0)))"
proof -
  have v: "0 < length (std_objs heap_two)" by (simp add: heap_two_def)
  let ?h1 = "add_snapshot (StandardCounter.count (std_objs heap_two ! 0))
     (Some (length (map_objs heap_two)))
     (add_map (merge_entries (DAList.impl_of (map_objs heap_two ! 0)) DAList.empty) heap_two)"
  have "StandardCounter_Snapshot 0 heap_two = Inr (CounterSnapshotPtr (length (snap_objs heap_two)), ?h1)"
    by (rule Snapshot_copy [of 0 heap_two 0])
      (simp_all add: heap_two_def size_alist_def DAList.update.rep_eq DAList.empty.rep_eq)
  then have run: "StandardCounter_Snapshot 0 heap_two = Inr (CounterSnapshotPtr 0, ?h1)"
    by (simp add: heap_two_def)
  have args: "list_all (call_ok ?h1) [Inc 3, AddTags (Some 1), Clear, AddTags (Some 2)]"
    by (simp add: add_snapshot_def add_map_def heap_two_def)
  have cnt: "StandardCounter.count (std_objs heap_two ! 0) = 7"
    and tgs: "StandardCounter.tags (std_objs heap_two ! 0) = Some 0"
    by (simp_all add: heap_two_def)
  from Snapshot_independent [OF heap_two_ok v] run
  obtain r where get: "invoke (CounterSnapshotPtr 0) GetTags ?h1 = Inr (RetTags r, ?h1)"
    and same: "tag_set ?h1 r = tag_set heap_two (Some 0)"
    and later: "\<forall>ops. list_all (call_ok ?h1) ops \<longrightarrow>
       (\<exists>rs h2. invoke_all (StandardCounterPtr 0) ops ?h1 = Inr (rs, h2) \<and>
          invoke (CounterSnapshotPtr 0) Count h2 = Inr (RetInt64 7, h2) \<and>
          invoke (CounterSnapshotPtr 0) GetTags h2 = Inr (RetTags r, h2) \<and>
          tag_set h2 r = tag_set ?h1 r)"
    by (auto simp only: sum.case prod.case cnt tgs)
  have "invoke (CounterSnapshotPtr 0) GetTags ?h1 = Inr (RetTags (Some 2), ?h1)"
    by (simp add: ret_def CounterSnapshot_GetTags_def snap_load_def add_snapshot_def add_map_def
        heap_two_def)
  with get have r: "r = Some 2" by simp
  from later args same r heap_two_ok v run show ?thesis
    by (simp only: sum.case prod.case)
qed

text \<open>
  C3. \<open>Clear\<close>, \<open>Inc\<close>, \<open>Dec\<close> and \<open>AddTags\<close> on a CounterSnapshot panic, on every
  store and for every argument, each with its own message. In a well-formed store, for a
  receiver that is an allocated object and arguments that are values of the store, a call
  fails exactly when the receiver is a CounterSnapshot and the method is one of these four:
  no method of NilCounter or StandardCounter fails, and neither do \<open>Count\<close>,
  \<open>Snapshot\<close> and \<open>GetTags\<close> on a CounterSnapshot.
\<close>

theorem only_snapshot_mutations_fail:
  "CounterSnapshot_Clear s h = Inl (Panic ''Clear called on a CounterSnapshot'') \<and>
   CounterSnapshot_Inc s i h = Inl (Panic ''Inc called on a CounterSnapshot'') \<and>
   CounterSnapshot_Dec s i h = Inl (Panic ''Dec called on a CounterSnapshot'') \<and>
   CounterSnapshot_AddTags s t h = Inl (Panic ''AddTags called on a CounterSnapshot'') \<and>
   (is_mutation x \<longrightarrow> (\<exists>msg. invoke (CounterSnapshotPtr s) x h = Inl (Panic msg))) \<and>
   (heap_ok h \<and> counter_ok h k \<and> call_ok h x \<longrightarrow>
      ((\<exists>e. invoke k x h = Inl e) \<longleftrightarrow> is_snapshot k \<and> is_mutation x))"
  using CounterSnapshot_mutation_panics [of x s h] failing_calls [of h k x]
  by (simp add: CounterSnapshot_Clear_def CounterSnapshot_Dec_def CounterSnapshot_Inc_def
      CounterSnapshot_AddTags_def del: invoke.simps)

text \<open>
  The theorem at \<open>AddTags\<close> with the second map of \<open>heap_two\<close>: it returns on the
  StandardCounter and panics on a CounterSnapshot.
\<close>

theorem only_snapshot_mutations_fail_witness:
  "heap_ok heap_two \<and> counter_ok heap_two (StandardCounterPtr 0) \<and>
   call_ok heap_two (AddTags (Some 1)) \<and> is_mutation (AddTags (Some 1)) \<and>
   \<not> (\<exists>e. invoke (StandardCounterPtr 0) (AddTags (Some 1)) heap_two = Inl e) \<and>
   (\<exists>msg. invoke (CounterSnapshotPtr 0) (AddTags (Some 1)) heap_two = Inl (Panic msg))"
  using only_snapshot_mutations_fail
    [of 0 heap_two 0 None "AddTags (Some 1)" "StandardCounterPtr 0"] heap_two_ok
  by (simp add: heap_two_def del: invoke.simps)

text \<open>
  C10. On a StandardCounter in a well-formed store: \<open>Count()\<close> and \<open>GetTags()\<close> return
  the store as it was; \<open>Snapshot()\<close> leaves every StandardCounter object and every
  existing map object as it was, so the counter's value and tag set are unchanged;
  \<open>Clear()\<close>, \<open>Inc(n)\<close> and \<open>Dec(n)\<close> leave the tags field and all map objects
  unchanged; \<open>AddTags(t)\<close> leaves the count unchanged.
\<close>

theorem StandardCounter_frame:
  assumes "heap_ok h" and "c < length (std_objs h)" and "ref_ok h t"
  shows "StandardCounter_Count c h = Inr (StandardCounter.count (std_objs h ! c), h) \<and>
     StandardCounter_GetTags c h = Inr (StandardCounter.tags (std_objs h ! c), h) \<and>
     (\<exists>k h'. StandardCounter_Snapshot c h = Inr (k, h') \<and> std_objs h' = std_objs h \<and>
        take (length (map_objs h)) (map_objs h') = map_objs h \<and>
        tag_set h' (StandardCounter.tags (std_objs h ! c)) =
          tag_set h (StandardCounter.tags (std_objs h ! c))) \<and>
     (\<exists>h'. StandardCounter_Clear c h = Inr ((), h') \<and> map_objs h' = map_objs h \<and>
        StandardCounter.tags (std_objs h' ! c) = StandardCounter.tags (std_objs h ! c)) \<and>
     (\<exists>h'. StandardCounter_Inc c n h = Inr ((), h') \<and> map_objs h' = map_objs h \<and>
        StandardCounter.tags (std_objs h' ! c) = StandardCounter.tags (std_objs h ! c)) \<and>
     (\<exists>h'. StandardCounter_Dec c n h = Inr ((), h') \<and> map_objs h' = map_objs h \<and>
        StandardCounter.tags (std_objs h' ! c) = StandardCounter.tags (std_objs h ! c)) \<and>
     (\<exists>h'. StandardCounter_AddTags c t h = Inr ((), h') \<and>
        StandardCounter.count (std_objs h' ! c) = StandardCounter.count (std_objs h ! c))"
proof -
  note c = assms(2)
  have reads: "StandardCounter_Count c h = Inr (StandardCounter.count (std_objs h ! c), h)"
    "StandardCounter_GetTags c h = Inr (StandardCounter.tags (std_objs h ! c), h)"
    using c by (simp_all add: Count_effect GetTags_effect)
  have writes: "\<exists>h'. StandardCounter_Clear c h = Inr ((), h') \<and> map_objs h' = map_objs h \<and>
        StandardCounter.tags (std_objs h' ! c) = StandardCounter.tags (std_objs h ! c)"
    "\<exists>h'. StandardCounter_Inc c n h = Inr ((), h') \<and> map_objs h' = map_objs h \<and>
        StandardCounter.tags (std_objs h' ! c) = StandardCounter.tags (std_objs h ! c)"
    "\<exists>h'. StandardCounter_Dec c n h = Inr ((), h') \<and> map_objs h' = map_objs h \<and>
        StandardCounter.tags (std_objs h' ! c) = StandardCounter.tags (std_objs h ! c)"
    using c by (simp_all add: Clear_effect Inc_effect Dec_effect set_count_def)
  from reads writes Snapshot_frame [OF assms(1,2)] AddTags_frame [OF assms] show ?thesis
    by (intro conjI)
qed

text \<open>The theorem at the counter of \<open>heap_two\<close>, with \<open>Inc(5)\<close> and \<open>AddTags({"b": "2"})\<close>.\<close>

theorem StandardCounter_frame_witness:
  "heap_ok heap_two \<and> 0 < length (std_objs heap_two) \<and> ref_ok heap_two (Some 1) \<and>
   StandardCounter_Count 0 heap_two = Inr (7, heap_two) \<and>
   StandardCounter_GetTags 0 heap_two = Inr (Some 0, heap_two) \<and>
   (\<exists>h'. StandardCounter_Inc 0 5 heap_two = Inr ((), h') \<and> map_objs h' = map_objs heap_two \<and>
      StandardCounter.tags (std_objs h' ! 0) = Some 0) \<and>
   (\<exists>h'. StandardCounter_AddTags 0 (Some 1) heap_two = Inr ((), h') \<and>
      StandardCounter.count (std_objs h' ! 0) = 7)"
proof -
  have v: "0 < length (std_objs heap_two)" and t: "ref_ok heap_two (Some 1)"
    by (simp_all add: heap_two_def)
  have "StandardCounter.count (std_objs heap_two ! 0) = 7"
    "StandardCounter.tags (std_objs heap_two ! 0) = Some 0"
    by (simp_all add: heap_two_def)
  with StandardCounter_frame [OF heap_two_ok v t, of 5] heap_two_ok v t show ?thesis
    by simp
qed

text \<open>
  C4, amended. The test in \<open>AddTags\<close> is \<open>c.tags == nil\<close>, so the two cases are told
  apart by whether the counter has a tag map at all, not by whether it has tags. If the
  tags field is nil, the given map value becomes the tags field: \<open>GetTags()\<close> returns
  that very value, and no map object is created or changed (adoption by reference). If the
  tags field refers to a map, also an empty one, every entry of the argument is assigned
  into that map object: \<open>GetTags()\<close> returns the same map as before, its tag set is the
  old one overridden by the argument's, and no other object changes. In particular
  \<open>AddTags({"a": "1"})\<close> and then \<open>AddTags({"a": "2", "b": "3"})\<close> on a fresh
  StandardCounter make \<open>GetTags()\<close> the first map, holding \<open>{"a": "2", "b": "3"}\<close>.
\<close>

theorem AddTags_merges:
  assumes "heap_ok h" and "c < length (std_objs h)" and "ref_ok h t"
  shows "(StandardCounter.tags (std_objs h ! c) = None \<longrightarrow>
            StandardCounter_AddTags c t h = Inr ((), set_tags c t h) \<and>
            StandardCounter_GetTags c (set_tags c t h) = Inr (t, set_tags c t h) \<and>
            map_objs (set_tags c t h) = map_objs h) \<and>
         (\<forall>b. StandardCounter.tags (std_objs h ! c) = Some b \<longrightarrow>
            (\<exists>h'. StandardCounter_AddTags c t h = Inr ((), h') \<and>
               StandardCounter_GetTags c h' = Inr (Some b, h') \<and>
               tag_set h' (Some b) = tag_set h (Some b) ++ tag_set h t \<and>
               std_objs h' = std_objs h \<and> snap_objs h' = snap_objs h \<and>
               length (map_objs h') = length (map_objs h) \<and>
               (\<forall>a. a \<noteq> b \<longrightarrow> map_objs h' ! a = map_objs h ! a))) \<and>
         (\<exists>h3. invoke_all (StandardCounterPtr 0) [AddTags (Some 0), AddTags (Some 1), GetTags]
                  heap_example = Inr ([RetUnit, RetUnit, RetTags (Some 0)], h3) \<and>
               tag_set h3 (Some 0) = [''a'' \<mapsto> ''2'', ''b'' \<mapsto> ''3''])"
proof (intro conjI impI allI)
  assume none: "StandardCounter.tags (std_objs h ! c) = None"
  from assms(2) none show "StandardCounter_AddTags c t h = Inr ((), set_tags c t h)"
    by (rule AddTags_adopt)
  from assms(2) show "StandardCounter_GetTags c (set_tags c t h) = Inr (t, set_tags c t h)"
    by (simp add: GetTags_effect set_tags_def)
  show "map_objs (set_tags c t h) = map_objs h" by (simp add: set_tags_def)
next
  fix b assume "StandardCounter.tags (std_objs h ! c) = Some b"
  from AddTags_merge_tag_set [OF assms this]
  show "\<exists>h'. StandardCounter_AddTags c t h = Inr ((), h') \<and>
               StandardCounter_GetTags c h' = Inr (Some b, h') \<and>
               tag_set h' (Some b) = tag_set h (Some b) ++ tag_set h t \<and>
               std_objs h' = std_objs h \<and> snap_objs h' = snap_objs h \<and>
               length (map_objs h') = length (map_objs h) \<and>
               (\<forall>a. a \<noteq> b \<longrightarrow> map_objs h' ! a = map_objs h ! a)" .
next
  show "\<exists>h3. invoke_all (StandardCounterPtr 0) [AddTags (Some 0), AddTags (Some 1), GetTags]
                  heap_example = Inr ([RetUnit, RetUnit, RetTags (Some 0)], h3) \<and>
               tag_set h3 (Some 0) = [''a'' \<mapsto> ''2'', ''b'' \<mapsto> ''3'']"
    by (rule AddTags_example)
qed

text \<open>
  The theorem twice: at a fresh counter given the empty map (the nil case), and at the
  resulting store given \<open>{"a": "1"}\<close> (the case of an existing map).
\<close>

theorem AddTags_merges_witness:
  "heap_ok heap_fresh \<and> 0 < length (std_objs heap_fresh) \<and> ref_ok heap_fresh (Some 0) \<and>
   StandardCounter.tags (std_objs heap_fresh ! 0) = None \<and>
   StandardCounter_AddTags 0 (Some 0) heap_fresh = Inr ((), heap_empty_tags) \<and>
   StandardCounter_GetTags 0 heap_empty_tags = Inr (Some 0, heap_empty_tags) \<and>
   heap_ok heap_empty_tags \<and> 0 < length (std_objs heap_empty_tags) \<and>
   ref_ok heap_empty_tags (Some 1) \<and>
   StandardCounter.tags (std_objs heap_empty_tags ! 0) = Some 0 \<and>
   (\<exists>h'. StandardCounter_AddTags 0 (Some 1) heap_empty_tags = Inr ((), h') \<and>
      StandardCounter_GetTags 0 h' = Inr (Some 0, h') \<and>
      tag_set h' (Some 0) = tag_set heap_empty_tags (Some 0) ++ tag_set heap_empty_tags (Some 1) \<and>
      map_objs h' ! 1 = map_objs heap_empty_tags ! 1)"
proof -
  have ok1: "heap_ok heap_fresh" and v1: "0 < length (std_objs heap_fresh)"
    and t1: "ref_ok heap_fresh (Some 0)"
    and none: "StandardCounter.tags (std_objs heap_fresh ! 0) = None"
    by (simp_all add: heap_fresh_eq heap_ok_def)
  have ok2: "heap_ok heap_empty_tags" and v2: "0 < length (std_objs heap_empty_tags)"
    and t2: "ref_ok heap_empty_tags (Some 1)"
    and some: "StandardCounter.tags (std_objs heap_empty_tags ! 0) = Some 0"
    by (simp_all add: heap_empty_tags_def heap_ok_def)
  have next_heap: "set_tags 0 (Some 0) heap_fresh = heap_empty_tags"
    by (simp add: heap_fresh_eq heap_empty_tags_def set_tags_def)
  from AddTags_merges [OF ok1 v1 t1] none next_heap
  have first: "StandardCounter_AddTags 0 (Some 0) heap_fresh = Inr ((), heap_empty_tags)"
    "StandardCounter_GetTags 0 heap_empty_tags = Inr (Some 0, heap_empty_tags)"
    by simp_all
  from AddTags_merges [OF ok2 v2 t2] some
  have second: "\<exists>h'. StandardCounter_AddTags 0 (Some 1) heap_empty_tags = Inr ((), h') \<and>
      StandardCounter_GetTags 0 h' = Inr (Some 0, h') \<and>
      tag_set h' (Some 0) = tag_set heap_empty_tags (Some 0) ++ tag_set heap_empty_tags (Some 1) \<and>
      map_objs h' ! 1 = map_objs heap_empty_tags ! 1"
    by auto
  from ok1 v1 t1 none first ok2 v2 t2 some second show ?thesis by (intro conjI)
qed

text \<open>
  C4 as the specification states it fails. A fresh counter that was given the empty map
  by \<open>AddTags\<close> still has no tags, yet a further \<open>AddTags({"a": "1"})\<close> does not make
  the given map the tag set: the entries are copied into the empty map, which
  \<open>GetTags()\<close> keeps returning.
\<close>

theorem AddTags_adoption_counterexample:
  "heap_ok heap_empty_tags \<and> 0 < length (std_objs heap_empty_tags) \<and>
   ref_ok heap_empty_tags (Some 1) \<and>
   invoke (StandardCounterPtr 0) (AddTags (Some 0)) heap_fresh = Inr (RetUnit, heap_empty_tags) \<and>
   has_no_tags 0 heap_empty_tags \<and>
   \<not> adopts_argument 0 (Some 1) heap_empty_tags"
proof -
  have reach: "invoke (StandardCounterPtr 0) (AddTags (Some 0)) heap_fresh =
      Inr (RetUnit, heap_empty_tags)"
    by (simp add: ret_def AddTags_adopt heap_fresh_eq heap_empty_tags_def set_tags_def)
  have none: "has_no_tags 0 heap_empty_tags"
    by (simp add: has_no_tags_def GetTags_effect map_len_def heap_empty_tags_def
        size_alist_def DAList.empty.rep_eq)
  have "StandardCounter_AddTags 0 (Some 1) heap_empty_tags =
      Inr ((), put_map 0 (merge_entries (DAList.impl_of (map_objs heap_empty_tags ! 1))
                            (map_objs heap_empty_tags ! 0)) heap_empty_tags)"
    by (rule AddTags_merge) (simp_all add: heap_empty_tags_def)
  then have other: "\<not> adopts_argument 0 (Some 1) heap_empty_tags"
    by (simp add: adopts_argument_def StandardCounter_GetTags_def std_load_def put_map_def
        heap_empty_tags_def)
  have "heap_ok heap_empty_tags" "0 < length (std_objs heap_empty_tags)"
    "ref_ok heap_empty_tags (Some 1)"
    by (simp_all add: heap_empty_tags_def heap_ok_def)
  with reach none other show ?thesis by (intro conjI)
qed

end
